theory Spec2Isabelle
  imports Complex_Main
begin

section \<open>Conventions of the embedding\<close>

text \<open>
  The development embeds the pixel pipeline of \<^verbatim>\<open>app.js\<close> (the current build, the
  second of the three concatenated documents of the file) and the saved-schedule query.

  \<^item> Pixel coordinates, counts and minutes are \<^typ>\<open>int\<close>; fractions, the tick spacing
    \<open>dy\<close> and the draws of \<^verbatim>\<open>Math.random()\<close> are \<^typ>\<open>rat\<close>. \<^verbatim>\<open>Math.floor\<close> is
    \<^const>\<open>floor\<close>, \<^verbatim>\<open>Math.round x\<close> is \<open>\<lfloor>x + 1/2\<rfloor>\<close> (JavaScript rounds halves upwards).
  \<^item> The source computes in IEEE doubles. Where the rounding of an operation can change a
    result, the operation is rounded to the nearest double (\<open>fl\<close>); where it cannot, the
    exact value is used, and the text at the definition says why.
  \<^item> A result object \<^verbatim>\<open>{ ok: false, reason }\<close> is \<open>Inl reason\<close>, a success is \<open>Inr\<close>;
    \<^verbatim>\<open>null\<close> is \<open>None\<close>.
\<close>

section \<open>IEEE doubles\<close>

text \<open>The double nearest to a rational: \<open>ulp q\<close> is the spacing of the doubles in the binade
  of \<open>q > 0\<close> (\<open>2 ^ (e - 52)\<close> for \<open>2 ^ e \<le> q < 2 ^ (e + 1)\<close>), and \<open>fl q\<close> rounds \<open>q\<close> to the
  nearest multiple of it, ties to the even mantissa. Overflow and subnormal numbers are not
  modelled: no number of the pipeline comes near them.\<close>

definition roundHalfEven :: "rat \<Rightarrow> int" where
  "roundHalfEven q =
     (let f = \<lfloor>q\<rfloor>; r = q - of_int f in
      if r < 1 / 2 then f else if 1 / 2 < r then f + 1 else if even f then f else f + 1)"

function expUp :: "rat \<Rightarrow> nat" where
  "expUp q = (if q < 2 then 0 else Suc (expUp (q / 2)))"
  by pat_completeness auto
termination
proof (relation "measure (\<lambda>q. nat \<lfloor>q\<rfloor>)")
  show "wf (measure (\<lambda>q::rat. nat \<lfloor>q\<rfloor>))" by simp
next
  fix q :: rat
  assume "\<not> q < 2"
  then have q: "2 \<le> q" by simp
  then have "q / 2 + 1 \<le> q" by simp
  then have "\<lfloor>q / 2\<rfloor> + 1 \<le> \<lfloor>q\<rfloor>" by (metis floor_mono floor_add_int of_int_1 floor_one add.commute)
  moreover have "0 \<le> \<lfloor>q / 2\<rfloor>" using q by simp
  ultimately show "(q / 2, q) \<in> measure (\<lambda>q. nat \<lfloor>q\<rfloor>)" by (simp add: nat_less_iff; linarith)
qed

function expDown :: "rat \<Rightarrow> nat" where
  "expDown q = (if q \<le> 0 \<or> 1 \<le> q then 0 else Suc (expDown (2 * q)))"
  by pat_completeness auto
termination
proof (relation "measure (\<lambda>q. nat \<lceil>1 / q\<rceil>)")
  show "wf (measure (\<lambda>q::rat. nat \<lceil>1 / q\<rceil>))" by simp
next
  fix q :: rat
  assume "\<not> (q \<le> 0 \<or> 1 \<le> q)"
  then have q: "0 < q" "q < 1" by simp_all
  let ?x = "1 / q"
  have x: "1 < ?x" using q by simp
  then have c2: "2 \<le> \<lceil>?x\<rceil>" by (simp add: less_ceiling_iff[symmetric] algebra_simps; linarith)
  have "?x / 2 \<le> of_int \<lceil>?x\<rceil> / 2" by (simp add: le_of_int_ceiling)
  also have "\<dots> \<le> of_int (\<lceil>?x\<rceil> - 1)" using c2 by simp
  finally have "?x / 2 \<le> of_int (\<lceil>?x\<rceil> - 1)" .
  then have "\<lceil>?x / 2\<rceil> \<le> \<lceil>?x\<rceil> - 1" by (rule ceiling_le)
  moreover have "1 / (2 * q) = ?x / 2" by simp
  ultimately have "\<lceil>1 / (2 * q)\<rceil> < \<lceil>?x\<rceil>" by (simp add: mult.commute)
  moreover have "0 < \<lceil>?x\<rceil>" using c2 by linarith
  ultimately show "(2 * q, q) \<in> measure (\<lambda>q. nat \<lceil>1 / q\<rceil>)" unfolding in_measure zless_nat_conj by blast
qed

declare expUp.simps [simp del] expDown.simps [simp del]

definition ulp :: "rat \<Rightarrow> rat" where
  "ulp q = (if 1 \<le> q then 2 ^ expUp q / 4503599627370496
            else 1 / (2 ^ expDown q * 4503599627370496))"

definition fl :: "rat \<Rightarrow> rat" where
  "fl q = (if q = 0 then 0 else let u = ulp \<bar>q\<bar> in of_int (roundHalfEven (q / u)) * u)"

section \<open>Pixel precompute and shared helpers\<close>

text \<open>\<^verbatim>\<open>clamp(n, lo, hi)\<close> for finite \<open>n\<close>: \<^verbatim>\<open>Math.max(lo, Math.min(hi, n))\<close>. When
  \<open>hi < lo\<close> the result is \<open>lo\<close>.\<close>

definition clamp :: "'a::linorder \<Rightarrow> 'a \<Rightarrow> 'a \<Rightarrow> 'a" where
  "clamp n lo hi = max lo (min hi n)"

text \<open>\<^verbatim>\<open>Math.round\<close> rounds halves towards \<open>+\<infinity>\<close>.\<close>

definition jsRound :: "rat \<Rightarrow> int" where
  "jsRound q = \<lfloor>q + 1 / 2\<rfloor>"

text \<open>\<^verbatim>\<open>v | 0\<close>: truncation towards zero, then wrap-around to a signed 32-bit integer;
  \<^verbatim>\<open>v >>> 0\<close>: wrap-around to an unsigned 32-bit integer.\<close>

definition toInt32 :: "int \<Rightarrow> int" where
  "toInt32 z = (z + 2147483648) mod 4294967296 - 2147483648"

definition truncInt32 :: "rat \<Rightarrow> int" where
  "truncInt32 q = toInt32 (if q \<ge> 0 then \<lfloor>q\<rfloor> else \<lceil>q\<rceil>)"

definition toUint32 :: "int \<Rightarrow> int" where
  "toUint32 z = z mod 4294967296"

text \<open>The precompute object \<^verbatim>\<open>pre\<close>: image size, the RGBA bytes (\<^verbatim>\<open>imgData\<close>, a flat array
  read by index), the summed-area tables of the near-white and the dark mask (flat arrays of
  \<open>(h + 1) * (w + 1)\<close> entries) and their row length \<^verbatim>\<open>W\<close>. Arrays are total functions of
  the index; every read the pipeline makes on an image with \<open>W = w + 1\<close> is in range.\<close>

record pre =
  pre_w :: int
  pre_h :: int
  imgData :: "int \<Rightarrow> int"
  whiteP :: "int \<Rightarrow> int"
  darkP :: "int \<Rightarrow> int"
  pre_W :: int

definition idxOf :: "int \<Rightarrow> int \<Rightarrow> int \<Rightarrow> int" where
  "idxOf x y w = toInt32 ((y * w + x) * 4)"

definition rectSum :: "(int \<Rightarrow> int) \<Rightarrow> int \<Rightarrow> int \<Rightarrow> int \<Rightarrow> int \<Rightarrow> int \<Rightarrow> int" where
  "rectSum P W x0 y0 x1 y1 =
     (let A = P (y0 * W + x0); B = P (y0 * W + x1); C = P (y1 * W + x0); D = P (y1 * W + x1)
      in toUint32 (D - B - C + A))"

definition NEAR_WHITE_THRESH :: int where
  "NEAR_WHITE_THRESH = 240"

definition isNearWhite :: "int \<Rightarrow> int \<Rightarrow> int \<Rightarrow> bool" where
  "isNearWhite r g b \<longleftrightarrow> r \<ge> NEAR_WHITE_THRESH \<and> g \<ge> NEAR_WHITE_THRESH \<and> b \<ge> NEAR_WHITE_THRESH"

text \<open>\<^verbatim>\<open>Math.random()\<close> is modelled by an explicit sequence of draws \<open>rnd 0, rnd 1, \<dots>\<close> and a
  position: a function that samples takes the position of its first draw and returns the
  position after its last one. Fixing the seed of a run is fixing \<open>rnd\<close> and the start
  position.\<close>

type_synonym rng = "int \<Rightarrow> rat"

text \<open>One sampled pixel of the rectangle \<open>[x0, x1) \<times> [y0, y1)\<close>: two draws, then the three
  colour bytes at \<^verbatim>\<open>idxOf(x, y, w)\<close>. The coordinate
  \<^verbatim>\<open>(x0 + Math.random() * (x1 - x0)) | 0\<close> is computed in doubles: both the product and the
  sum are rounded, so that a draw within a few \<open>2\<^sup>-\<^sup>5\<^sup>3\<close> of 1 can yield \<open>x1\<close> itself.\<close>

definition samplePixel :: "pre \<Rightarrow> int \<Rightarrow> int \<Rightarrow> int \<Rightarrow> int \<Rightarrow> rng \<Rightarrow> int \<Rightarrow> int \<times> int \<times> int" where
  "samplePixel p x0 x1 y0 y1 rnd k =
     (let x = truncInt32 (fl (of_int x0 + fl (rnd k * of_int (x1 - x0))));
          y = truncInt32 (fl (of_int y0 + fl (rnd (k + 1) * of_int (y1 - y0))));
          i = idxOf x y (pre_w p)
      in (imgData p i, imgData p (i + 1), imgData p (i + 2)))"

section \<open>Cell classifier (\<^verbatim>\<open>computeAvailFromFrozenNav\<close> and its helpers)\<close>

record dayRegion =
  dr_x0 :: rat
  dr_x1 :: rat

record slotBand =
  yStart :: int
  yEnd :: int
  topTick :: int
  botTick :: int

record bgColor =
  bg_r :: int
  bg_g :: int
  bg_b :: int
  bg_tol :: int
  bg_samples :: int
  bg_whiteFrac :: rat

definition isBgMatch :: "int \<Rightarrow> int \<Rightarrow> int \<Rightarrow> bgColor \<Rightarrow> bool" where
  "isBgMatch r g b bg \<longleftrightarrow>
     \<bar>r - bg_r bg\<bar> \<le> bg_tol bg \<and> \<bar>g - bg_g bg\<bar> \<le> bg_tol bg \<and> \<bar>b - bg_b bg\<bar> \<le> bg_tol bg"

text \<open>\<^verbatim>\<open>PURPLE_WORK = { r: 213, g: 43, b: 255, tol: 55 }\<close>.\<close>

definition isPurpleMatch :: "int \<Rightarrow> int \<Rightarrow> int \<Rightarrow> bool" where
  "isPurpleMatch r g b \<longleftrightarrow> \<bar>r - 213\<bar> \<le> 55 \<and> \<bar>g - 43\<bar> \<le> 55 \<and> \<bar>b - 255\<bar> \<le> 55"

text \<open>The sampling rectangle of a cell: the floored region and band, inset by 8 pixels
  horizontally and 2 vertically and clamped into the image.\<close>

definition cellRect :: "pre \<Rightarrow> slotBand \<Rightarrow> dayRegion \<Rightarrow> int \<times> int \<times> int \<times> int" where
  "cellRect p slot region =
     (let x0 = clamp (\<lfloor>dr_x0 region\<rfloor> + 8) 0 (pre_w p - 1);
          x1 = clamp (\<lfloor>dr_x1 region\<rfloor> - 8) (x0 + 1) (pre_w p);
          y0 = clamp (yStart slot + 2) 0 (pre_h p - 1);
          y1 = clamp (yEnd slot - 2) (y0 + 1) (pre_h p)
      in (x0, x1, y0, y1))"

text \<open>The sampling loop of \<^verbatim>\<open>measurePurpleFrac\<close>: \<open>n\<close> samples remain, \<open>k\<close> is the position
  of the next draw.\<close>

fun purpleLoop :: "pre \<Rightarrow> int \<times> int \<times> int \<times> int \<Rightarrow> rng \<Rightarrow> nat \<Rightarrow> int \<Rightarrow> int \<Rightarrow> int \<times> int" where
  "purpleLoop p rect rnd 0 k purpleCount = (purpleCount, k)"
| "purpleLoop p (x0, x1, y0, y1) rnd (Suc n) k purpleCount =
     (case samplePixel p x0 x1 y0 y1 rnd k of
        (r, g, b) \<Rightarrow>
          purpleLoop p (x0, x1, y0, y1) rnd n (k + 2)
            (purpleCount + (if isPurpleMatch r g b then 1 else 0)))"

definition measurePurpleFrac :: "pre \<Rightarrow> slotBand \<Rightarrow> dayRegion \<Rightarrow> rng \<Rightarrow> int \<Rightarrow> rat \<times> int" where
  "measurePurpleFrac p slot region rnd k =
     (case purpleLoop p (cellRect p slot region) rnd 160 k 0 of
        (purpleCount, k') \<Rightarrow> (of_int purpleCount / 160, k'))"

text \<open>The four counters of \<^verbatim>\<open>classifySlotSample\<close> (\<^verbatim>\<open>bgCount\<close>, \<^verbatim>\<open>nonWhiteCount\<close>,
  \<^verbatim>\<open>purpleCount\<close>, \<^verbatim>\<open>occupiedCount\<close>).\<close>

record counts =
  c_bg :: int
  c_nonWhite :: int
  c_purple :: int
  c_occupied :: int

fun classifyLoop ::
  "pre \<Rightarrow> int \<times> int \<times> int \<times> int \<Rightarrow> bgColor \<Rightarrow> rng \<Rightarrow> nat \<Rightarrow> int \<Rightarrow> counts \<Rightarrow> counts \<times> int" where
  "classifyLoop p rect bg rnd 0 k c = (c, k)"
| "classifyLoop p (x0, x1, y0, y1) bg rnd (Suc n) k c =
     (case samplePixel p x0 x1 y0 y1 rnd k of
        (r, g, b) \<Rightarrow>
          let isBg = isBgMatch r g b bg;
              isPurple = isPurpleMatch r g b;
              isNonWhite = \<not> isNearWhite r g b
          in classifyLoop p (x0, x1, y0, y1) bg rnd n (k + 2)
               \<lparr>c_bg = c_bg c + (if isBg then 1 else 0),
                c_nonWhite = c_nonWhite c + (if isNonWhite then 1 else 0),
                c_purple = c_purple c + (if isPurple then 1 else 0),
                c_occupied =
                  c_occupied c + (if isNonWhite \<and> \<not> isPurple \<and> \<not> isBg then 1 else 0)\<rparr>)"

text \<open>The result object of the classifier; the reported fractions are rounded to three
  decimals.\<close>

record classified =
  cs_free :: bool
  cs_bgFrac :: rat
  cs_inkFrac :: rat
  cs_purpleFrac :: rat
  cs_occupiedFrac :: rat
  cs_samples :: nat

definition round3 :: "rat \<Rightarrow> rat" where
  "round3 q = of_int (jsRound (q * 1000)) / 1000"

text \<open>\<^verbatim>\<open>classifySlotSample\<close> with the options \<^verbatim>\<open>computeAvailFromFrozenNav\<close> passes
  (\<^verbatim>\<open>busyFracMin = 0.50\<close>, the other thresholds at their defaults, 140 samples). The
  fractions \<open>c / 140\<close> (and \<open>c / 160\<close> of the purple measurement) are kept exact: for every
  count \<open>c\<close> the comparison with each threshold has the same result in doubles.\<close>

definition classifySlotSample ::
  "pre \<Rightarrow> slotBand \<Rightarrow> dayRegion \<Rightarrow> bgColor \<Rightarrow> rng \<Rightarrow> int \<Rightarrow> (string + classified) \<times> int" where
  "classifySlotSample p slot region bg rnd k =
     (if \<lfloor>dr_x1 region\<rfloor> \<le> \<lfloor>dr_x0 region\<rfloor> then (Inl ''bad dayRegion'', k)
      else if yEnd slot \<le> yStart slot then (Inl ''bad slotBand'', k)
      else
        (case classifyLoop p (cellRect p slot region) bg rnd 140 k
                \<lparr>c_bg = 0, c_nonWhite = 0, c_purple = 0, c_occupied = 0\<rparr> of
           (c, k') \<Rightarrow>
             let bgFrac = of_int (c_bg c) / 140;
                 inkFrac = of_int (c_nonWhite c) / 140;
                 purpleFrac = of_int (c_purple c) / 140;
                 occupiedFrac = of_int (c_occupied c) / 140;
                 free = (if occupiedFrac \<ge> 50 / 100 then False
                         else bgFrac \<ge> 82 / 100 \<or> (bgFrac \<ge> 55 / 100 \<and> inkFrac \<le> 12 / 100))
             in (Inr \<lparr>cs_free = free, cs_bgFrac = round3 bgFrac, cs_inkFrac = round3 inkFrac,
                      cs_purpleFrac = round3 purpleFrac, cs_occupiedFrac = round3 occupiedFrac,
                      cs_samples = 140\<rparr>, k')))"

text \<open>Rectangle fractions over the summed-area tables (\<^verbatim>\<open>rectWhiteFrac\<close>,
  \<^verbatim>\<open>rectNonWhiteFrac\<close>, \<^verbatim>\<open>rectDarkFrac\<close>): 0 on an empty rectangle. The quotient and
  the difference \<^verbatim>\<open>1 - whiteFrac\<close> are doubles: \<^verbatim>\<open>1 - 156 / 200\<close> is below the double
  \<^verbatim>\<open>0.22\<close>.\<close>

definition rectWhiteFrac :: "pre \<Rightarrow> int \<Rightarrow> int \<Rightarrow> int \<Rightarrow> int \<Rightarrow> rat" where
  "rectWhiteFrac p x0 y0 x1 y1 =
     (let area = (x1 - x0) * (y1 - y0) in
      if area \<le> 0 then 0
      else fl (of_int (rectSum (whiteP p) (pre_W p) x0 y0 x1 y1) / of_int area))"

definition rectNonWhiteFrac :: "pre \<Rightarrow> int \<Rightarrow> int \<Rightarrow> int \<Rightarrow> int \<Rightarrow> rat" where
  "rectNonWhiteFrac p x0 y0 x1 y1 = fl (1 - rectWhiteFrac p x0 y0 x1 y1)"

definition rectDarkFrac :: "pre \<Rightarrow> int \<Rightarrow> int \<Rightarrow> int \<Rightarrow> int \<Rightarrow> rat" where
  "rectDarkFrac p x0 y0 x1 y1 =
     (let area = (x1 - x0) * (y1 - y0) in
      if area \<le> 0 then 0
      else fl (of_int (rectSum (darkP p) (pre_W p) x0 y0 x1 y1) / of_int area))"

text \<open>\<^verbatim>\<open>detectGridSpill\<close> (prefix based, no sampling): the cell's centre is clean while an
  edge stripe or a top/bottom stripe is heavily non-white. The result is its \<^verbatim>\<open>spill\<close> flag.
  The thresholds are the doubles \<^verbatim>\<open>0.10\<close>, \<^verbatim>\<open>0.25\<close> and \<^verbatim>\<open>0.22\<close>; the pads
  \<^verbatim>\<open>Math.floor(n * 0.18)\<close> are the same in doubles and in exact arithmetic for every
  \<open>n\<close> below 20000.\<close>

definition detectGridSpill :: "pre \<Rightarrow> slotBand \<Rightarrow> dayRegion \<Rightarrow> bool" where
  "detectGridSpill p slot region =
     (let w = pre_w p; h = pre_h p;
          x0 = clamp \<lfloor>dr_x0 region\<rfloor> 0 (w - 1);
          x1 = clamp \<lfloor>dr_x1 region\<rfloor> (x0 + 1) w;
          y0 = clamp (yStart slot) 0 (h - 1);
          y1 = clamp (yEnd slot) (y0 + 1) h;
          ix0 = clamp (x0 + 8) 0 (w - 1);
          ix1 = clamp (x1 - 8) (ix0 + 1) w;
          iy0 = clamp (y0 + 2) 0 (h - 1);
          iy1 = clamp (y1 - 2) (iy0 + 1) h;
          cxPad = max 10 \<lfloor>of_int (ix1 - ix0) * (18 / 100 :: rat)\<rfloor>;
          cyPad = max 4 \<lfloor>of_int (iy1 - iy0) * (18 / 100 :: rat)\<rfloor>;
          cx0 = clamp (ix0 + cxPad) 0 (w - 1);
          cx1 = clamp (ix1 - cxPad) (cx0 + 1) w;
          cy0 = clamp (iy0 + cyPad) 0 (h - 1);
          cy1 = clamp (iy1 - cyPad) (cy0 + 1) h;
          lx0 = ix0;
          lx1 = clamp (ix0 + 8) (lx0 + 1) ix1;
          rx1 = ix1;
          rx0 = clamp (ix1 - 8) ix0 (rx1 - 1);
          ty0 = iy0;
          ty1 = clamp (iy0 + 4) (ty0 + 1) iy1;
          by1 = iy1;
          by0 = clamp (iy1 - 4) iy0 (by1 - 1);
          centerNW = rectNonWhiteFrac p cx0 cy0 cx1 cy1;
          leftNW = rectNonWhiteFrac p lx0 iy0 lx1 iy1;
          rightNW = rectNonWhiteFrac p rx0 iy0 rx1 iy1;
          topNW = rectNonWhiteFrac p ix0 ty0 ix1 ty1;
          botNW = rectNonWhiteFrac p ix0 by0 ix1 by1;
          edgeSpill = (centerNW \<le> fl (10 / 100) \<and> max leftNW rightNW \<ge> fl (25 / 100));
          hSpill = (centerNW \<le> fl (10 / 100) \<and> max topNW botNW \<ge> fl (22 / 100))
      in edgeSpill \<or> hSpill)"

text \<open>The body of the slot loop of \<^verbatim>\<open>computeAvailFromFrozenNav\<close> for one cell: the pair
  \<open>(arr[i], workArr[i])\<close> and the position of the next draw. \<open>softFree\<close> is the spill policy
  \<^verbatim>\<open>"softFree"\<close>.\<close>

definition classifyCell ::
  "pre \<Rightarrow> bgColor \<Rightarrow> bool \<Rightarrow> dayRegion \<Rightarrow> slotBand \<Rightarrow> rng \<Rightarrow> int \<Rightarrow> (bool \<times> bool) \<times> int" where
  "classifyCell p bg softFree region slot rnd k =
     (case measurePurpleFrac p slot region rnd k of
        (purpleFrac, k1) \<Rightarrow>
          if purpleFrac \<ge> 18 / 100 then ((True, True), k1)
          else
            (case classifySlotSample p slot region bg rnd k1 of
               (Inl reason, k2) \<Rightarrow> ((False, False), k2)
             | (Inr base, k2) \<Rightarrow>
                 ((if \<not> cs_free base \<and> softFree \<and> detectGridSpill p slot region then True
                   else cs_free base, False), k2)))"

fun slotsLoop ::
  "pre \<Rightarrow> bgColor \<Rightarrow> bool \<Rightarrow> dayRegion \<Rightarrow> rng \<Rightarrow> slotBand list \<Rightarrow> int \<Rightarrow>
   (bool list \<times> bool list) \<times> int" where
  "slotsLoop p bg softFree region rnd [] k = (([], []), k)"
| "slotsLoop p bg softFree region rnd (slot # rest) k =
     (case classifyCell p bg softFree region slot rnd k of
        ((free, isWork), k1) \<Rightarrow>
          (case slotsLoop p bg softFree region rnd rest k1 of
             ((arr, workArr), k2) \<Rightarrow> ((free # arr, isWork # workArr), k2)))"

datatype weekday = Monday | Tuesday | Wednesday | Thursday | Friday

definition WEEKDAYS :: "weekday list" where
  "WEEKDAYS = [Monday, Tuesday, Wednesday, Thursday, Friday]"

text \<open>The lane chosen by \<^verbatim>\<open>pickBestTickLane\<close> (fractions of the image width).\<close>

record lane =
  x0Frac :: rat
  x1Frac :: rat

text \<open>The frozen navigation snapshot returned by \<^verbatim>\<open>computeFrozenNavFromPre\<close>. Of
  \<^verbatim>\<open>preMeta\<close> the image size is kept; its time stamp is not modelled.\<close>

record nav =
  dayRegions :: "weekday \<Rightarrow> dayRegion"
  slotBands :: "slotBand list"
  ticksForMap :: "int list"
  bgWhite :: bgColor
  anchorStartTime :: string
  preMeta :: "int \<times> int"
  laneMeta :: lane
  dividerXs :: "int list"

record avail =
  av_version :: nat
  av_anchorStartTime :: string
  av_slots :: nat
  av_days :: "weekday \<Rightarrow> bool list"
  av_workDays :: "weekday \<Rightarrow> bool list"
  av_spillPolicy :: bool

text \<open>What a top-level entry point hands to its caller: a success object, a failure
  object \<^verbatim>\<open>{ ok: false, reason }\<close>, or an exception that escapes.\<close>

datatype 'a outcome = Ok 'a | Failed string | Thrown string

text \<open>\<^verbatim>\<open>safeTrimDayRegion(region, dividerXs, insetPx)\<close> returns what
  \<^verbatim>\<open>window.trimDayRegionByDivider\<close> returns when that is a function that does not throw.
  That function is defined nowhere in the sources at hand, so the behaviour of
  \<^verbatim>\<open>safeTrimDayRegion\<close> is a parameter \<open>trim\<close> of every function that reaches it; \<open>None\<close>
  is a falsy result. When the function is absent or throws, \<^verbatim>\<open>safeTrimDayRegion\<close> is the
  instance \<open>insetTrim\<close>: the region inset on both sides, or the region itself when that
  would leave no more than four pixels.\<close>

type_synonym trimFn = "dayRegion \<Rightarrow> int list \<Rightarrow> int \<Rightarrow> dayRegion option"

definition insetTrim :: trimFn where
  "insetTrim region xs insetPx =
     (let x0 = jsRound (fl (dr_x0 region + of_int insetPx));
          x1 = jsRound (fl (dr_x1 region - of_int insetPx))
      in if x1 \<le> x0 + 4 then Some region else Some \<lparr>dr_x0 = of_int x0, dr_x1 = of_int x1\<rparr>)"

text \<open>The loop over the week days: \<open>daysOut\<close> and \<open>workDaysOut\<close> are filled day by day. A
  \<^verbatim>\<open>null\<close> region makes \<^verbatim>\<open>measurePurpleFrac\<close> throw on its first slot.\<close>

fun daysLoop ::
  "trimFn \<Rightarrow> pre \<Rightarrow> nav \<Rightarrow> bool \<Rightarrow> rng \<Rightarrow> weekday list \<Rightarrow>
   (weekday \<Rightarrow> bool list) \<Rightarrow> (weekday \<Rightarrow> bool list) \<Rightarrow> int \<Rightarrow>
   ((weekday \<Rightarrow> bool list) \<times> (weekday \<Rightarrow> bool list)) option \<times> int" where
  "daysLoop trim p nv softFree rnd [] daysOut workDaysOut k = (Some (daysOut, workDaysOut), k)"
| "daysLoop trim p nv softFree rnd (day # rest) daysOut workDaysOut k =
     (case trim (dayRegions nv day) (dividerXs nv) 6 of
        None \<Rightarrow> (None, k)
      | Some region \<Rightarrow>
          (case slotsLoop p (bgWhite nv) softFree region rnd (slotBands nv) k of
             ((arr, workArr), k1) \<Rightarrow>
               daysLoop trim p nv softFree rnd rest
                 (daysOut(day := arr)) (workDaysOut(day := workArr)) k1))"

definition computeAvailFromFrozenNav ::
  "trimFn \<Rightarrow> pre \<Rightarrow> nav \<Rightarrow> bool \<Rightarrow> rng \<Rightarrow> int \<Rightarrow> avail outcome \<times> int" where
  "computeAvailFromFrozenNav trim p nv softFree rnd k =
     (if length (slotBands nv) < 1 then (Failed ''bad nav (missing dayRegions/slotBands)'', k)
      else
        (case daysLoop trim p nv softFree rnd WEEKDAYS (\<lambda>d. []) (\<lambda>d. []) k of
           (None, k1) \<Rightarrow> (Thrown ''TypeError'', k1)
         | (Some (daysOut, workDaysOut), k1) \<Rightarrow>
             (Ok \<lparr>av_version = 1,
                  av_anchorStartTime =
                    (if anchorStartTime nv = [] then ''8:00 AM'' else anchorStartTime nv),
                  av_slots = length (slotBands nv),
                  av_days = daysOut, av_workDays = workDaysOut,
                  av_spillPolicy = softFree\<rparr>, k1)))"

text \<open>Reference notions for the classifier: the \<open>n\<close> pixels sampled from position \<open>k\<close> on,
  the fraction of a list of pixels that satisfies a predicate, and the pixel classes in the
  words of the specification: background-matching (every channel within the tolerance of the
  calibrated background), ink (not near-white: some channel below 240) and occupied (ink
  that is neither within tolerance 55 of the purple (213, 43, 255) nor
  background-matching).\<close>

definition sampledPixels ::
  "pre \<Rightarrow> int \<times> int \<times> int \<times> int \<Rightarrow> rng \<Rightarrow> int \<Rightarrow> nat \<Rightarrow> (int \<times> int \<times> int) list" where
  "sampledPixels p rect rnd k n =
     (case rect of (x0, x1, y0, y1) \<Rightarrow>
        map (\<lambda>i. samplePixel p x0 x1 y0 y1 rnd (k + 2 * int i)) [0 ..< n])"

definition fracOf :: "(int \<times> int \<times> int \<Rightarrow> bool) \<Rightarrow> (int \<times> int \<times> int) list \<Rightarrow> rat" where
  "fracOf P pixels = of_nat (length (filter P pixels)) / of_nat (length pixels)"

definition pxBg :: "bgColor \<Rightarrow> int \<times> int \<times> int \<Rightarrow> bool" where
  "pxBg bg px =
     (case px of (r, g, b) \<Rightarrow>
        bg_r bg - bg_tol bg \<le> r \<and> r \<le> bg_r bg + bg_tol bg
        \<and> bg_g bg - bg_tol bg \<le> g \<and> g \<le> bg_g bg + bg_tol bg
        \<and> bg_b bg - bg_tol bg \<le> b \<and> b \<le> bg_b bg + bg_tol bg)"

definition pxPurple :: "int \<times> int \<times> int \<Rightarrow> bool" where
  "pxPurple px = (case px of (r, g, b) \<Rightarrow> isPurpleMatch r g b)"

definition pxInk :: "int \<times> int \<times> int \<Rightarrow> bool" where
  "pxInk px = (case px of (r, g, b) \<Rightarrow> r < 240 \<or> g < 240 \<or> b < 240)"

definition pxOccupied :: "bgColor \<Rightarrow> int \<times> int \<times> int \<Rightarrow> bool" where
  "pxOccupied bg px =
     (case px of (r, g, b) \<Rightarrow>
        pxInk px
        \<and> \<not> (158 \<le> r \<and> r \<le> 268 \<and> - 12 \<le> g \<and> g \<le> 98 \<and> 200 \<le> b \<and> b \<le> 310)
        \<and> \<not> pxBg bg px)"

text \<open>The position of the first draw of cell \<open>i\<close> of a day's slot loop that starts at \<open>k\<close>.\<close>

fun cellPos ::
  "pre \<Rightarrow> bgColor \<Rightarrow> bool \<Rightarrow> dayRegion \<Rightarrow> rng \<Rightarrow> slotBand list \<Rightarrow> int \<Rightarrow> nat \<Rightarrow> int" where
  "cellPos p bg softFree region rnd slots k 0 = k"
| "cellPos p bg softFree region rnd [] k (Suc i) = k"
| "cellPos p bg softFree region rnd (slot # rest) k (Suc i) =
     cellPos p bg softFree region rnd rest (snd (classifyCell p bg softFree region slot rnd k)) i"

text \<open>The position of the first draw of a day's slot loop, for the loop over the week days
  that starts at \<open>k\<close>.\<close>

fun dayPos ::
  "trimFn \<Rightarrow> pre \<Rightarrow> nav \<Rightarrow> bool \<Rightarrow> rng \<Rightarrow> weekday list \<Rightarrow> int \<Rightarrow> weekday \<Rightarrow> int" where
  "dayPos trim p nv softFree rnd [] k day = k"
| "dayPos trim p nv softFree rnd (d # rest) k day =
     (if d = day then k
      else (case trim (dayRegions nv d) (dividerXs nv) 6 of
              None \<Rightarrow> k
            | Some region \<Rightarrow>
                dayPos trim p nv softFree rnd rest
                  (snd (slotsLoop p (bgWhite nv) softFree region rnd (slotBands nv) k)) day))"

section \<open>Tick validation (\<^verbatim>\<open>validateTicksFromFirst\<close> and its helpers)\<close>




























section \<open>Example inputs\<close>

text \<open>A 500 by 100 image on a white sheet: the Tuesday column is solid red above row 45 and
  the Friday column is solid reference purple; five day regions of 100 pixels and two slot
  bands. The draws cycle through the sixteenths \<open>0, 7/16, 14/16, 5/16, \<dots>\<close>, which are
  doubles. A degenerate region of no width lies in the white Monday column.\<close>

definition exImgData :: "int \<Rightarrow> int" where
  "exImgData i =
     (let x = (i div 4) mod 500; y = (i div 4) div 500; c = i mod 4 in
      if 400 \<le> x then (if c = 0 then 213 else if c = 1 then 43 else 255)
      else if 100 \<le> x \<and> x < 200 \<and> y < 45 then (if c = 0 \<or> c = 3 then 255 else 0)
      else 255)"

definition exZero :: "int \<Rightarrow> int" where
  "exZero i = 0"

definition exImage :: pre where
  "exImage = \<lparr>pre_w = 500, pre_h = 100, imgData = exImgData,
     whiteP = exZero, darkP = exZero, pre_W = 501\<rparr>"

definition exBg :: bgColor where
  "exBg = \<lparr>bg_r = 255, bg_g = 255, bg_b = 255, bg_tol = 44, bg_samples = 180, bg_whiteFrac = 1\<rparr>"

definition exNav :: nav where
  "exNav = \<lparr>dayRegions = (\<lambda>d. case d of
                 Monday \<Rightarrow> \<lparr>dr_x0 = 0, dr_x1 = 100\<rparr>
               | Tuesday \<Rightarrow> \<lparr>dr_x0 = 100, dr_x1 = 200\<rparr>
               | Wednesday \<Rightarrow> \<lparr>dr_x0 = 200, dr_x1 = 300\<rparr>
               | Thursday \<Rightarrow> \<lparr>dr_x0 = 300, dr_x1 = 400\<rparr>
               | Friday \<Rightarrow> \<lparr>dr_x0 = 400, dr_x1 = 499\<rparr>),
     slotBands = [\<lparr>yStart = 10, yEnd = 40, topTick = 9, botTick = 41\<rparr>,
                  \<lparr>yStart = 50, yEnd = 80, topTick = 49, botTick = 81\<rparr>],
     ticksForMap = [9, 41, 81], bgWhite = exBg, anchorStartTime = ''8:00 AM'',
     preMeta = (500, 100), laneMeta = \<lparr>x0Frac = 15 / 1000, x1Frac = 55 / 1000\<rparr>,
     dividerXs = [0, 100, 200, 300, 400, 499]\<rparr>"

definition exTrim :: trimFn where
  "exTrim region xs insetPx = Some region"

definition exRnd :: rng where
  "exRnd n = of_int ((7 * n) mod 16) / 16"

definition exNarrow :: dayRegion where
  "exNarrow = \<lparr>dr_x0 = 50, dr_x1 = 50\<rparr>"




section \<open>Saved-schedule query (\<^verbatim>\<open>queryAllSavedSchedulesDayRange\<close>)\<close>

text \<open>\<^verbatim>\<open>maskArr[i] === true\<close>: a read outside the array yields \<^verbatim>\<open>undefined\<close>, which is not
  \<^verbatim>\<open>true\<close>.\<close>

definition maskAt :: "bool list \<Rightarrow> int \<Rightarrow> bool" where
  "maskAt maskArr i \<longleftrightarrow> 0 \<le> i \<and> i < int (length maskArr) \<and> maskArr ! nat i"

text \<open>Closing a run of the mask: the range is pushed only if it is not empty. Ranges are
  kept in minutes; the source renders both ends with \<^verbatim>\<open>minutesToTimeStr\<close> when it pushes.\<close>

definition pushRange :: "(int \<times> int) list \<Rightarrow> int \<Rightarrow> int \<Rightarrow> (int \<times> int) list" where
  "pushRange ranges runStartMin runEndMin =
     (if runEndMin > runStartMin then ranges @ [(runStartMin, runEndMin)] else ranges)"

text \<open>The \<^verbatim>\<open>for (let i = i0; i < i1; i++)\<close> loop of \<^verbatim>\<open>buildRangesFromMask\<close>; the state is
  the list of ranges and \<^verbatim>\<open>runStartIdx\<close> (\<open>None\<close> for \<^verbatim>\<open>null\<close>).\<close>

function rangesLoop ::
  "bool list \<Rightarrow> int \<Rightarrow> int \<Rightarrow> int \<Rightarrow> int \<Rightarrow> int \<Rightarrow> int \<Rightarrow>
   (int \<times> int) list \<Rightarrow> int option \<Rightarrow> (int \<times> int) list \<times> int option" where
  "rangesLoop maskArr anchorMin step clampStartMin clampEndMin i i1 ranges runStartIdx =
     (if i < i1 then
        (if maskAt maskArr i then
           rangesLoop maskArr anchorMin step clampStartMin clampEndMin (i + 1) i1 ranges
             (case runStartIdx of None \<Rightarrow> Some i | Some r \<Rightarrow> Some r)
         else
           (case runStartIdx of
              None \<Rightarrow> rangesLoop maskArr anchorMin step clampStartMin clampEndMin (i + 1) i1 ranges None
            | Some r \<Rightarrow>
                rangesLoop maskArr anchorMin step clampStartMin clampEndMin (i + 1) i1
                  (pushRange ranges (max clampStartMin (anchorMin + r * step))
                     (min clampEndMin (anchorMin + i * step)))
                  None))
      else (ranges, runStartIdx))"
  by pat_completeness auto
termination
  by (relation "measure (\<lambda>(maskArr, anchorMin, step, cs, ce, i, i1, ranges, run). nat (i1 - i))") auto

declare rangesLoop.simps [simp del]

definition buildRangesFromMask ::
  "bool list \<Rightarrow> int \<Rightarrow> int \<Rightarrow> int \<Rightarrow> int \<Rightarrow> int \<Rightarrow> int \<Rightarrow> (int \<times> int) list" where
  "buildRangesFromMask maskArr i0 i1 anchorMin step clampStartMin clampEndMin =
     (case rangesLoop maskArr anchorMin step clampStartMin clampEndMin i0 i1 [] None of
        (ranges, None) \<Rightarrow> ranges
      | (ranges, Some r) \<Rightarrow>
          pushRange ranges (max clampStartMin (anchorMin + r * step)) clampEndMin)"

text \<open>\<^verbatim>\<open>String(n)\<close> for an integer \<open>n \<ge> 0\<close>: its decimal digits.\<close>

function decStr :: "int \<Rightarrow> string" where
  "decStr n = (if n < 10 then [char_of (48 + n)] else decStr (n div 10) @ [char_of (48 + n mod 10)])"
  by pat_completeness auto
termination
  by (relation "measure nat") auto

declare decStr.simps [simp del]

text \<open>\<^verbatim>\<open>minutesToTimeStr\<close> on an integer number of minutes: a 12-hour clock time such as
  \<^verbatim>\<open>8:00 AM\<close>.\<close>

definition minutesToTimeStr :: "int \<Rightarrow> string" where
  "minutesToTimeStr totalMinutes =
     (let m = max 0 totalMinutes;
          hour = m div 60;
          minute = m mod 60;
          ampm = (if hour \<ge> 12 then ''PM'' else ''AM'');
          displayHour = (if hour mod 12 = 0 then 12 else hour mod 12)
      in decStr displayHour @ '':'' @ (if minute < 10 then ''0'' else []) @ decStr minute
         @ '' '' @ ampm)"

text \<open>The skip reason of a record whose schedule does not meet the query window; the
  en dash between the two times is written as its three UTF-8 bytes.\<close>

definition enDash :: string where
  "enDash = [CHR 0xE2, CHR 0x80, CHR 0x93]"

definition outsideRangeReason :: "int \<Rightarrow> int \<Rightarrow> string" where
  "outsideRangeReason schedStart schedEnd =
     ''Query window outside schedule range ('' @ minutesToTimeStr schedStart @ enDash @
     minutesToTimeStr schedEnd @ '')''"

text \<open>One saved record, as the loop body of the query reads it for the requested day:
  \<^verbatim>\<open>avail.days[day]\<close> and \<^verbatim>\<open>avail.workDays[day]\<close> (\<open>None\<close> when not an array; stored grids
  hold booleans, see \<^verbatim>\<open>isValidAvail\<close>), the stored slot count (\<open>None\<close> when neither
  \<^verbatim>\<open>avail.slots\<close> nor \<^verbatim>\<open>avail.meta.slots\<close> is a finite number) and the anchor start time
  already parsed by \<^verbatim>\<open>timeStrToMinutes\<close> (\<open>None\<close> for \<^verbatim>\<open>NaN\<close>).\<close>

record savedRec =
  rec_dayArr :: "bool list option"
  rec_slotsRaw :: "rat option"
  rec_workArr :: "bool list option"
  rec_anchorMin :: "int option"

datatype recResult =
  Skipped string
  | Listed "(int \<times> int) list" "(int \<times> int) list"

definition TIME_STEP_MIN :: int where
  "TIME_STEP_MIN = 30"

text \<open>\<^verbatim>\<open>slotsFinal\<close>: the stored count when it is a positive integer, else the length of the
  day array (\<open>None\<close> for \<^verbatim>\<open>NaN\<close>).\<close>

definition slotsFinalOf :: "savedRec \<Rightarrow> int option" where
  "slotsFinalOf rec =
     (let slots = (case rec_slotsRaw rec of None \<Rightarrow> 0 | Some q \<Rightarrow> q) in
      if of_int \<lfloor>slots\<rfloor> = slots \<and> slots > 0 then Some \<lfloor>slots\<rfloor>
      else (case rec_dayArr rec of None \<Rightarrow> None | Some d \<Rightarrow> Some (int (length d))))"

text \<open>The derived free mask: \<^verbatim>\<open>freeMask[i] = (dayArr[i] === true) && (workArr[i] !== true)\<close>
  for \<open>i < slotsFinal\<close>, built only when the work array has the length of the slot count.\<close>

definition freeMaskOf :: "bool list \<Rightarrow> bool list option \<Rightarrow> int \<Rightarrow> bool list" where
  "freeMaskOf d wopt slotsFinal =
     (case wopt of
        None \<Rightarrow> d
      | Some wa \<Rightarrow>
          if int (length wa) = slotsFinal
          then map (\<lambda>i. maskAt d (int i) \<and> \<not> maskAt wa (int i)) [0 ..< nat slotsFinal]
          else d)"

text \<open>The body of the loop over the saved records, for a query window
  \<open>[startMin, endMin)\<close> that passed the range check of the function's head.\<close>

definition queryRecord :: "int \<Rightarrow> int \<Rightarrow> savedRec \<Rightarrow> recResult" where
  "queryRecord startMin endMin rec =
     (case (rec_dayArr rec, slotsFinalOf rec) of
        (Some d, Some slotsFinal) \<Rightarrow>
          if int (length d) \<noteq> slotsFinal then Skipped ''No availability grid for this day''
          else
            (case rec_anchorMin rec of
               None \<Rightarrow> Skipped ''Bad anchorStartTime''
             | Some anchorMin \<Rightarrow>
                 let step = TIME_STEP_MIN;
                     schedStart = anchorMin;
                     schedEnd = anchorMin + slotsFinal * step;
                     clampStart = max startMin schedStart;
                     clampEnd = min endMin schedEnd
                 in
                 if clampEnd \<le> clampStart
                 then Skipped (outsideRangeReason schedStart schedEnd)
                 else
                   let i0 = max 0 ((clampStart - anchorMin) div step);
                       i1 = min slotsFinal (- ((- (clampEnd - anchorMin)) div step));
                       freeMask = freeMaskOf d (rec_workArr rec) slotsFinal;
                       freeRanges =
                         buildRangesFromMask freeMask i0 i1 anchorMin step startMin endMin;
                       workRanges =
                         (case rec_workArr rec of
                            None \<Rightarrow> []
                          | Some wa \<Rightarrow>
                              if int (length wa) = slotsFinal
                              then buildRangesFromMask wa i0 i1 anchorMin step startMin endMin
                              else [])
                   in
                   if freeRanges \<noteq> [] \<or> workRanges \<noteq> [] then Listed freeRanges workRanges
                   else Skipped ''No free or placement time in range'')
      | _ \<Rightarrow> Skipped ''No availability grid for this day'')"

text \<open>Proof device: a pushed range \<open>(s, e)\<close> stems from a run \<open>[a, b)\<close> of set mask
  entries inside \<open>[i0, i1)\<close>; it starts no earlier than slot \<open>a\<close> and ends no later than the
  end of slot \<open>b - 1\<close>, unless the run is the trailing one (\<open>b = i1\<close>).\<close>

definition okRange :: "bool list \<Rightarrow> int \<Rightarrow> int \<Rightarrow> int \<Rightarrow> int \<Rightarrow> int \<Rightarrow> int \<times> int \<Rightarrow> bool" where
  "okRange m anchorMin step ce i0 i1 se \<longleftrightarrow> snd se \<le> ce \<and>
     (\<exists>a b. i0 \<le> a \<and> a < b \<and> b \<le> i1 \<and> (\<forall>j. a \<le> j \<and> j < b \<longrightarrow> maskAt m j) \<and>
        anchorMin + a * step \<le> fst se \<and> (snd se \<le> anchorMin + b * step \<or> b = i1))"

text \<open>A stored record for the examples: four slots from 8:00 AM; the second slot is a work
  slot that the classifier also recorded as available.\<close>

definition exampleRec :: savedRec where
  "exampleRec = \<lparr>rec_dayArr = Some [True, True, True, False], rec_slotsRaw = Some 4,
     rec_workArr = Some [False, True, False, False], rec_anchorMin = Some 480\<rparr>"

section \<open>Properties\<close>

subsection \<open>Cell classifier: the sampling loops count what the rule names\<close>

lemma sampledPixels_Suc:
  "sampledPixels p (x0, x1, y0, y1) rnd k (Suc n) =
     samplePixel p x0 x1 y0 y1 rnd k # sampledPixels p (x0, x1, y0, y1) rnd (k + 2) n"
proof -
  have "[0 ..< Suc n] = 0 # map Suc [0 ..< n]"
    by (simp add: upt_conv_Cons map_Suc_upt del: upt_Suc)
  then show ?thesis
    by (simp add: sampledPixels_def comp_def add.assoc del: upt_Suc)
qed

lemma sampledPixels_0 [simp]: "sampledPixels p rect rnd k 0 = []"
  by (simp add: sampledPixels_def split: prod.splits)

lemma length_sampledPixels [simp]: "length (sampledPixels p rect rnd k n) = n"
  by (simp add: sampledPixels_def split: prod.splits)

lemma purpleLoop_count:
  "purpleLoop p rect rnd n k c =
     (c + int (length (filter pxPurple (sampledPixels p rect rnd k n))), k + 2 * int n)"
proof (induction n arbitrary: k c)
  case 0
  then show ?case by (cases rect) simp
next
  case (Suc n)
  obtain x0 x1 y0 y1 where rect: "rect = (x0, x1, y0, y1)" by (cases rect) auto
  show ?case
    unfolding rect
    by (simp add: Suc.IH[unfolded rect] sampledPixels_Suc pxPurple_def split: prod.splits)
qed

lemma measurePurpleFrac_frac:
  "measurePurpleFrac p slot region rnd k =
     (fracOf pxPurple (sampledPixels p (cellRect p slot region) rnd k 160), k + 320)"
  by (simp add: measurePurpleFrac_def purpleLoop_count fracOf_def)

lemma classifyLoop_count:
  "classifyLoop p rect bg rnd n k c =
     (\<lparr>c_bg = c_bg c + int (length (filter (pxBg bg) (sampledPixels p rect rnd k n))),
       c_nonWhite = c_nonWhite c + int (length (filter pxInk (sampledPixels p rect rnd k n))),
       c_purple = c_purple c + int (length (filter pxPurple (sampledPixels p rect rnd k n))),
       c_occupied = c_occupied c + int (length (filter (pxOccupied bg) (sampledPixels p rect rnd k n)))\<rparr>,
      k + 2 * int n)"
proof (induction n arbitrary: k c)
  case 0
  then show ?case by (cases rect) simp
next
  case (Suc n)
  obtain x0 x1 y0 y1 where rect: "rect = (x0, x1, y0, y1)" by (cases rect) auto
  have bg: "isBgMatch r g b bg \<longleftrightarrow> pxBg bg (r, g, b)" for r g b
    by (auto simp: isBgMatch_def pxBg_def abs_le_iff)
  have ink: "\<not> isNearWhite r g b \<longleftrightarrow> pxInk (r, g, b)" for r g b
    by (auto simp: isNearWhite_def NEAR_WHITE_THRESH_def pxInk_def)
  have occ: "pxOccupied bg (r, g, b) \<longleftrightarrow>
               pxInk (r, g, b) \<and> \<not> isPurpleMatch r g b \<and> \<not> pxBg bg (r, g, b)" for r g b
    by (auto simp: pxOccupied_def isPurpleMatch_def abs_le_iff)
  show ?case
    unfolding rect
    by (auto simp: Suc.IH[unfolded rect] sampledPixels_Suc pxPurple_def bg ink occ Let_def
        split: prod.splits)
qed

text \<open>
  Claim C1 (hybrid busy/free rule), as amended. For a cell whose purple fraction is below the
  work threshold: if the floored day region and the slot band are not empty
  (\<open>\<lfloor>x0\<rfloor> < \<lfloor>x1\<rfloor>\<close> and \<open>yStart < yEnd\<close>), the classifier draws 140 pixels (280 draws, after
  the 320 of the purple measurement) and returns \<open>free = False\<close> whenever the fraction of
  samples that are non-near-white, not purple and not background-matching is at least 0.50;
  otherwise it returns \<open>free = True\<close> exactly when \<open>bgFrac \<ge> 0.82\<close>, or \<open>bgFrac \<ge> 0.55\<close> and
  \<open>inkFrac \<le> 0.12\<close>; the cell's entry is this verdict, turned to free by a detected grid
  spill under the policy \<^verbatim>\<open>"softFree"\<close>. On an empty region or band the classifier fails
  without drawing a pixel and the cell is recorded busy, whatever its pixels are.
\<close>

theorem hybrid_busy_free_rule:
  assumes "fst (measurePurpleFrac p slot region rnd k0) < 18 / 100"
  shows "if \<lfloor>dr_x0 region\<rfloor> < \<lfloor>dr_x1 region\<rfloor> \<and> yStart slot < yEnd slot
         then \<exists>res.
                classifySlotSample p slot region bg rnd (k0 + 320) = (Inr res, k0 + 600)
              \<and> cs_samples res = 140
              \<and> (let pixels = sampledPixels p (cellRect p slot region) rnd (k0 + 320) 140 in
                   length pixels = 140
                   \<and> (cs_free res \<longleftrightarrow>
                        \<not> fracOf (pxOccupied bg) pixels \<ge> 50 / 100
                        \<and> (fracOf (pxBg bg) pixels \<ge> 82 / 100
                           \<or> (fracOf (pxBg bg) pixels \<ge> 55 / 100
                              \<and> fracOf pxInk pixels \<le> 12 / 100))))
              \<and> classifyCell p bg softFree region slot rnd k0 =
                  ((cs_free res \<or> (softFree \<and> detectGridSpill p slot region), False), k0 + 600)
         else (\<exists>reason. classifySlotSample p slot region bg rnd (k0 + 320) = (Inl reason, k0 + 320))
              \<and> classifyCell p bg softFree region slot rnd k0 = ((False, False), k0 + 320)"
proof (cases "\<lfloor>dr_x0 region\<rfloor> < \<lfloor>dr_x1 region\<rfloor> \<and> yStart slot < yEnd slot")
  case True
  let ?pixels = "sampledPixels p (cellRect p slot region) rnd (k0 + 320) 140"
  obtain res where res: "classifySlotSample p slot region bg rnd (k0 + 320) = (Inr res, k0 + 600)"
    and free: "cs_free res \<longleftrightarrow>
              \<not> fracOf (pxOccupied bg) ?pixels \<ge> 50 / 100
              \<and> (fracOf (pxBg bg) ?pixels \<ge> 82 / 100
                 \<or> (fracOf (pxBg bg) ?pixels \<ge> 55 / 100 \<and> fracOf pxInk ?pixels \<le> 12 / 100))"
    and n: "cs_samples res = 140"
    using True
    by (simp add: classifySlotSample_def classifyLoop_count fracOf_def Let_def)
  have cell: "classifyCell p bg softFree region slot rnd k0 =
      ((cs_free res \<or> (softFree \<and> detectGridSpill p slot region), False), k0 + 600)"
    using assms res by (auto simp: classifyCell_def measurePurpleFrac_frac)
  show ?thesis
    using True res free n cell by (auto simp: Let_def)
next
  case False
  then have "\<exists>reason. classifySlotSample p slot region bg rnd (k0 + 320) = (Inl reason, k0 + 320)"
    by (auto simp: classifySlotSample_def not_less)
  then obtain reason where
    bad: "classifySlotSample p slot region bg rnd (k0 + 320) = (Inl reason, k0 + 320)" ..
  have cell: "classifyCell p bg softFree region slot rnd k0 = ((False, False), k0 + 320)"
    using assms bad by (simp add: classifyCell_def measurePurpleFrac_frac)
  show ?thesis
    using False bad cell by auto
qed

subsection \<open>Cell classifier: the work marker\<close>

lemma slotsLoop_length:
  "slotsLoop p bg softFree region rnd slots k = ((arr, workArr), k') \<Longrightarrow>
   length arr = length slots \<and> length workArr = length slots"
  by (induction slots arbitrary: k arr workArr k') (auto split: prod.splits)

lemma slotsLoop_nth:
  assumes "slotsLoop p bg softFree region rnd slots k = ((arr, workArr), k')" "i < length slots"
  shows "(arr ! i, workArr ! i) =
           fst (classifyCell p bg softFree region (slots ! i) rnd
                  (cellPos p bg softFree region rnd slots k i))
         \<and> cellPos p bg softFree region rnd slots k (Suc i) =
           snd (classifyCell p bg softFree region (slots ! i) rnd
                  (cellPos p bg softFree region rnd slots k i))"
  using assms
proof (induction slots arbitrary: k arr workArr k' i)
  case Nil
  then show ?case by simp
next
  case (Cons slot rest)
  obtain free isWork k1 where c: "classifyCell p bg softFree region slot rnd k = ((free, isWork), k1)"
    by (metis prod.exhaust)
  obtain arr' workArr' k2 where r: "slotsLoop p bg softFree region rnd rest k1 = ((arr', workArr'), k2)"
    by (metis prod.exhaust)
  from Cons.prems(1) c r have eq: "arr = free # arr'" "workArr = isWork # workArr'" by auto
  show ?case
  proof (cases i)
    case 0
    then show ?thesis using c eq by (cases rest) auto
  next
    case (Suc j)
    with Cons.prems(2) have "j < length rest" by simp
    from Cons.IH[OF r this] show ?thesis using Suc eq c by simp
  qed
qed

lemma classifyCell_work:
  "classifyCell p bg softFree region slot rnd k =
     (let pf = fracOf pxPurple (sampledPixels p (cellRect p slot region) rnd k 160) in
      if pf \<ge> 18 / 100 then ((True, True), k + 320)
      else ((fst (fst (classifyCell p bg softFree region slot rnd k)), False),
            snd (classifyCell p bg softFree region slot rnd k)))"
  by (auto simp: classifyCell_def measurePurpleFrac_frac Let_def split: prod.splits sum.splits)

lemma daysLoop_day:
  assumes "daysLoop trim p nv softFree rnd ds dO wO k = (Some (dO', wO'), k')"
  shows "(day \<notin> set ds \<longrightarrow> dO' day = dO day \<and> wO' day = wO day) \<and>
         (day \<in> set ds \<longrightarrow> distinct ds \<longrightarrow>
            (\<exists>region. trim (dayRegions nv day) (dividerXs nv) 6 = Some region \<and>
               (dO' day, wO' day) =
                 fst (slotsLoop p (bgWhite nv) softFree region rnd (slotBands nv)
                        (dayPos trim p nv softFree rnd ds k day))))"
  using assms
proof (induction ds arbitrary: dO wO k)
  case Nil
  then show ?case by simp
next
  case (Cons d rest)
  from Cons.prems obtain region where t: "trim (dayRegions nv d) (dividerXs nv) 6 = Some region"
    by (auto split: option.splits)
  obtain arr workArr k1 where
    sl: "slotsLoop p (bgWhite nv) softFree region rnd (slotBands nv) k = ((arr, workArr), k1)"
    by (metis prod.exhaust)
  from Cons.prems t sl have
    r: "daysLoop trim p nv softFree rnd rest (dO(d := arr)) (wO(d := workArr)) k1 = (Some (dO', wO'), k')"
    by simp
  note IH = Cons.IH[OF r]
  show ?case
  proof (cases "day = d")
    case True
    then show ?thesis using IH t sl by auto
  next
    case False
    then show ?thesis using IH t sl by auto
  qed
qed

lemma all_weekdays: "day \<in> set WEEKDAYS"
  by (cases day) (simp_all add: WEEKDAYS_def)

lemma distinct_weekdays: "distinct WEEKDAYS"
  by (simp add: WEEKDAYS_def)

text \<open>
  Claim C2 (work marker). In every availability grid the classifier returns, for every day
  and slot: the work flag of the cell is set exactly when at least a 0.18 fraction of the 160
  pixels sampled for it lie within per-channel tolerance 55 of the reference purple
  (213, 43, 255); in that case the cell is also recorded as available and the cell consumes
  only the 320 draws of the purple measurement, that is, the busy/free sampling is skipped.
\<close>

theorem work_marker_counts_as_available:
  assumes "computeAvailFromFrozenNav trim p nv softFree rnd k = (Ok av, k')"
    and "i < length (slotBands nv)"
  shows "\<exists>region. trim (dayRegions nv day) (dividerXs nv) 6 = Some region
     \<and> length (av_days av day) = length (slotBands nv)
     \<and> length (av_workDays av day) = length (slotBands nv)
     \<and> (let slot = slotBands nv ! i;
             ki = cellPos p (bgWhite nv) softFree region rnd (slotBands nv)
                    (dayPos trim p nv softFree rnd WEEKDAYS k day) i;
             purpleFrac = fracOf pxPurple (sampledPixels p (cellRect p slot region) rnd ki 160)
         in fst (measurePurpleFrac p slot region rnd ki) = purpleFrac
          \<and> (av_workDays av day ! i \<longleftrightarrow> purpleFrac \<ge> 18 / 100)
          \<and> (purpleFrac \<ge> 18 / 100 \<longrightarrow>
               av_days av day ! i
               \<and> cellPos p (bgWhite nv) softFree region rnd (slotBands nv)
                    (dayPos trim p nv softFree rnd WEEKDAYS k day) (Suc i) = ki + 320))"
proof -
  from assms(1) obtain dO wO where
    dl: "daysLoop trim p nv softFree rnd WEEKDAYS (\<lambda>d. []) (\<lambda>d. []) k = (Some (dO, wO), k')"
    and av: "av_days av = dO" "av_workDays av = wO"
    by (auto simp: computeAvailFromFrozenNav_def split: if_splits prod.splits option.splits)
  let ?k0 = "dayPos trim p nv softFree rnd WEEKDAYS k day"
  from daysLoop_day[OF dl, of day] all_weekdays distinct_weekdays
  obtain region where t: "trim (dayRegions nv day) (dividerXs nv) 6 = Some region"
    and eq: "(dO day, wO day) =
       fst (slotsLoop p (bgWhite nv) softFree region rnd (slotBands nv) ?k0)"
    by blast
  obtain k2 where sl: "slotsLoop p (bgWhite nv) softFree region rnd (slotBands nv) ?k0 =
      ((dO day, wO day), k2)"
    using eq by (metis prod.collapse)
  note len = slotsLoop_length[OF sl]
  note nth = slotsLoop_nth[OF sl assms(2)]
  let ?slot = "slotBands nv ! i"
  let ?ki = "cellPos p (bgWhite nv) softFree region rnd (slotBands nv) ?k0 i"
  let ?pf = "fracOf pxPurple (sampledPixels p (cellRect p ?slot region) rnd ?ki 160)"
  have m: "fst (measurePurpleFrac p ?slot region rnd ?ki) = ?pf"
    by (simp add: measurePurpleFrac_frac)
  have cw: "classifyCell p (bgWhite nv) softFree region ?slot rnd ?ki =
      (if ?pf \<ge> 18 / 100 then ((True, True), ?ki + 320)
       else ((fst (fst (classifyCell p (bgWhite nv) softFree region ?slot rnd ?ki)), False),
            snd (classifyCell p (bgWhite nv) softFree region ?slot rnd ?ki)))"
    using classifyCell_work[of p "bgWhite nv" softFree region ?slot rnd ?ki] by (simp add: Let_def)
  have w: "wO day ! i \<longleftrightarrow> ?pf \<ge> 18 / 100"
    using nth cw by (metis fst_conv snd_conv)
  have a: "?pf \<ge> 18 / 100 \<Longrightarrow> dO day ! i \<and>
      cellPos p (bgWhite nv) softFree region rnd (slotBands nv) ?k0 (Suc i) = ?ki + 320"
    using nth cw by (metis fst_conv snd_conv)
  show ?thesis
    using t len m w a av by (auto simp: Let_def)
qed

subsection \<open>Cell classifier: sampling stays inside the cell; the example image\<close>

lemma expUp_le: "1 \<le> q \<Longrightarrow> 2 ^ expUp q \<le> q"
proof (induction q rule: expUp.induct)
  case (1 q)
  show ?case
  proof (cases "q < 2")
    case True
    then show ?thesis using 1(2) by (subst expUp.simps) simp
  next
    case False
    then have "1 \<le> q / 2" by simp
    from 1(1)[OF False this] have "2 ^ expUp (q / 2) \<le> q / 2" .
    then show ?thesis using False by (subst expUp.simps) simp
  qed
qed

lemma roundHalfEven_of_int [simp]: "roundHalfEven (of_int n) = n"
  by (simp add: roundHalfEven_def)

lemma fl_fixed:
  assumes "q / ulp \<bar>q\<bar> = of_int n" "ulp \<bar>q\<bar> \<noteq> 0"
  shows "fl q = q"
proof -
  have "of_int (roundHalfEven (q / ulp \<bar>q\<bar>)) * ulp \<bar>q\<bar> = q / ulp \<bar>q\<bar> * ulp \<bar>q\<bar>"
    unfolding assms(1) by simp
  also have "\<dots> = q" using assms(2) by simp
  finally show ?thesis by (simp add: fl_def Let_def)
qed

lemma ulp_pos: "0 < ulp q"
  by (simp add: ulp_def)

text \<open>Multiples of \<open>1/16\<close> below \<open>2 ^ 48\<close> are doubles.\<close>

lemma fl_sixteenth:
  assumes "q = of_int n / 16" "\<bar>q\<bar> < 281474976710656"
  shows "fl q = q"
proof -
  let ?a = "\<bar>q\<bar>"
  have "\<exists>m. q / ulp ?a = of_int m"
  proof (cases "1 \<le> ?a")
    case True
    have "(2::rat) ^ expUp ?a \<le> ?a" using True by (rule expUp_le)
    also have "\<dots> < 2 ^ 48" using assms(2) by simp
    finally have "(2::rat) ^ expUp ?a < 2 ^ 48" .
  then have "expUp ?a < 48" by (rule power_less_imp_less_exp[rotated]) simp
    then obtain d where d: "48 = expUp ?a + d" by (metis less_imp_add_positive)
    have "q / ulp ?a = q * 4503599627370496 / 2 ^ expUp ?a"
      using True by (simp add: ulp_def)
    also have "\<dots> = of_int n * (2 ^ 48 / 2 ^ expUp ?a)" by (simp add: assms(1))
    also have "(2::rat) ^ 48 / 2 ^ expUp ?a = 2 ^ d" unfolding d by (simp add: power_add)
    finally have "q / ulp ?a = of_int (n * 2 ^ d)" by simp
    then show ?thesis by blast
  next
    case False
    then have "q / ulp ?a = q * (2 ^ expDown ?a * 4503599627370496)"
      by (simp add: ulp_def)
    also have "\<dots> = of_int (n * 2 ^ expDown ?a * 281474976710656)" by (simp add: assms(1))
    finally show ?thesis by blast
  qed
  then show ?thesis using fl_fixed ulp_pos[of ?a] by (metis less_irrefl)
qed

lemma toInt32_id: "- 2147483648 \<le> z \<Longrightarrow> z < 2147483648 \<Longrightarrow> toInt32 z = z"
  by (simp add: toInt32_def)

lemma sample_coord:
  assumes "r = of_int m / 16" "0 \<le> r" "r < 1" "a < b" "0 \<le> a" "b \<le> 2147483647"
  shows "a \<le> truncInt32 (fl (of_int a + fl (r * of_int (b - a)))) \<and>
         truncInt32 (fl (of_int a + fl (r * of_int (b - a)))) < b"
proof -
  let ?q = "of_int a + r * of_int (b - a) :: rat"
  have d: "(0::rat) < of_int (b - a)" using assms(4) by simp
  have p0: "0 \<le> r * of_int (b - a)" using assms(2) d by simp
  then have lo: "of_int a \<le> ?q" by simp
  have p1: "r * of_int (b - a) < 1 * of_int (b - a)"
    using assms(3) d by (rule mult_strict_right_mono)
  then have hi: "?q < of_int b" by simp
  have q0: "0 \<le> ?q" using lo assms(5) by (metis of_int_0_le_iff order_trans)
  have "(of_int b :: rat) \<le> of_int 2147483647" using assms(6) by (simp only: of_int_le_iff)
  then have b48: "(of_int b :: rat) < 281474976710656" by simp
  have "r * of_int (b - a) = of_int (m * (b - a)) / 16" by (simp add: assms(1))
  moreover have "\<bar>r * of_int (b - a)\<bar> < 281474976710656"
    using p0 p1 hi lo b48 assms(5) by simp
  ultimately have e1: "fl (r * of_int (b - a)) = r * of_int (b - a)" by (rule fl_sixteenth)
  have "?q = of_int (16 * a + m * (b - a)) / 16" by (simp add: assms(1))
  moreover have "\<bar>?q\<bar> < 281474976710656" using q0 hi b48 by simp
  ultimately have e2: "fl ?q = ?q" by (rule fl_sixteenth)
  from lo have f1: "a \<le> \<lfloor>?q\<rfloor>" using le_floor_iff by blast
  from hi have f2: "\<lfloor>?q\<rfloor> < b" using floor_less_iff by blast
  have "truncInt32 ?q = toInt32 \<lfloor>?q\<rfloor>" using q0 by (simp add: truncInt32_def)
  also have "\<dots> = \<lfloor>?q\<rfloor>" using f1 f2 assms(5,6) by (intro toInt32_id; linarith)
  finally have t: "truncInt32 ?q = \<lfloor>?q\<rfloor>" .
  show ?thesis unfolding e1 e2 t using f1 f2 by blast
qed

text \<open>A sampled pixel lies inside the sampling rectangle when the draws are sixteenths in
  \<open>[0, 1)\<close>: then no operation rounds.\<close>

lemma samplePixel_in_rect:
  assumes rx: "rnd k = of_int m / 16" "0 \<le> rnd k" "rnd k < 1"
    and ry: "rnd (k + 1) = of_int m' / 16" "0 \<le> rnd (k + 1)" "rnd (k + 1) < 1"
    and bx: "0 \<le> x0" "x0 < x1" "x1 \<le> pre_w p" and bnd: "0 \<le> y0" "y0 < y1" "y1 \<le> pre_h p"
    and sz: "pre_w p * pre_h p * 4 < 2147483648"
  shows "\<exists>x y. x0 \<le> x \<and> x < x1 \<and> y0 \<le> y \<and> y < y1 \<and>
           samplePixel p x0 x1 y0 y1 rnd k =
             (imgData p ((y * pre_w p + x) * 4), imgData p ((y * pre_w p + x) * 4 + 1),
              imgData p ((y * pre_w p + x) * 4 + 2))"
proof -
  let ?x = "truncInt32 (fl (of_int x0 + fl (rnd k * of_int (x1 - x0))))"
  let ?y = "truncInt32 (fl (of_int y0 + fl (rnd (k + 1) * of_int (y1 - y0))))"
  have wpos: "0 < pre_w p" "0 < pre_h p" using bx bnd by linarith+
  have w: "pre_w p \<le> 2147483647" "pre_h p \<le> 2147483647"
  proof -
    have "pre_w p * 1 \<le> pre_w p * pre_h p" using wpos by (intro mult_left_mono) auto
    moreover have "1 * pre_h p \<le> pre_w p * pre_h p" using wpos by (intro mult_right_mono) auto
    moreover have "pre_w p * pre_h p < 536870912" using sz by (simp add: mult.commute)
    ultimately show "pre_w p \<le> 2147483647" "pre_h p \<le> 2147483647" by linarith+
  qed
  have "x1 \<le> 2147483647" "y1 \<le> 2147483647" using w bx bnd by linarith+
  note sx = sample_coord[OF rx bx(2) bx(1) this(1)] and sy = sample_coord[OF ry bnd(2) bnd(1) this(2)]
  have x: "x0 \<le> ?x \<and> ?x < x1" by (rule sx)
  have y: "y0 \<le> ?y \<and> ?y < y1" by (rule sy)
  have "?y * pre_w p + ?x < pre_h p * pre_w p"
  proof -
    have "?y + 1 \<le> pre_h p" using y bnd by linarith
    then have "(?y + 1) * pre_w p \<le> pre_h p * pre_w p" using wpos by (intro mult_right_mono) auto
    moreover have "?x < pre_w p" using x bx by linarith
    ultimately show ?thesis by (simp add: algebra_simps)
  qed
  moreover have "0 \<le> ?y * pre_w p + ?x"
  proof -
    have "0 \<le> ?y" "0 \<le> ?x" using x y bx bnd by linarith+
    then show ?thesis using wpos by simp
  qed
  ultimately have "idxOf ?x ?y (pre_w p) = (?y * pre_w p + ?x) * 4"
    unfolding idxOf_def using sz by (intro toInt32_id) (auto simp: algebra_simps)
  then show ?thesis
    using x y by (intro exI[of _ ?x] exI[of _ ?y]) (simp add: samplePixel_def Let_def)
qed

text \<open>If every pixel of the rectangle satisfies a predicate, so does every sampled pixel.\<close>

lemma sampledPixels_all:
  assumes rnd: "\<forall>j. (\<exists>m. rnd j = of_int m / 16) \<and> 0 \<le> rnd j \<and> rnd j < 1"
    and rect: "0 \<le> x0" "x0 < x1" "x1 \<le> pre_w p" "0 \<le> y0" "y0 < y1" "y1 \<le> pre_h p"
    and sz: "pre_w p * pre_h p * 4 < 2147483648"
    and Q: "\<And>x y. x0 \<le> x \<Longrightarrow> x < x1 \<Longrightarrow> y0 \<le> y \<Longrightarrow> y < y1 \<Longrightarrow>
              Q (imgData p ((y * pre_w p + x) * 4), imgData p ((y * pre_w p + x) * 4 + 1),
                 imgData p ((y * pre_w p + x) * 4 + 2))"
  shows "\<forall>px \<in> set (sampledPixels p (x0, x1, y0, y1) rnd k n). Q px"
proof -
  have "Q (samplePixel p x0 x1 y0 y1 rnd j)" for j
  proof -
    from rnd obtain m m' where m: "rnd j = of_int m / 16" "rnd (j + 1) = of_int m' / 16"
      by blast
    from rnd have r: "0 \<le> rnd j" "rnd j < 1" "0 \<le> rnd (j + 1)" "rnd (j + 1) < 1" by auto
    from samplePixel_in_rect[OF m(1) r(1,2) m(2) r(3,4) rect sz]
    obtain x y where "x0 \<le> x" "x < x1" "y0 \<le> y" "y < y1"
      "samplePixel p x0 x1 y0 y1 rnd j =
             (imgData p ((y * pre_w p + x) * 4), imgData p ((y * pre_w p + x) * 4 + 1),
              imgData p ((y * pre_w p + x) * 4 + 2))" by blast
    then show ?thesis using Q by simp
  qed
  then show ?thesis by (auto simp: sampledPixels_def)
qed

lemma fracOf_all: "pixels \<noteq> [] \<Longrightarrow> \<forall>px \<in> set pixels. Q px \<Longrightarrow> fracOf Q pixels = 1"
  by (simp add: fracOf_def)

lemma fracOf_none: "\<forall>px \<in> set pixels. \<not> Q px \<Longrightarrow> fracOf Q pixels = 0"
  by (simp add: fracOf_def)

lemma exRnd_range: "\<forall>j. (\<exists>m. exRnd j = of_int m / 16) \<and> 0 \<le> exRnd j \<and> exRnd j < 1"
proof
  fix j :: int
  have "0 \<le> (7 * j) mod 16" "(7 * j) mod 16 < 16" by simp_all
  then show "(\<exists>m. exRnd j = of_int m / 16) \<and> 0 \<le> exRnd j \<and> exRnd j < 1"
    unfolding exRnd_def by (auto simp: divide_less_eq)
qed

lemma exImgData_px:
  assumes "0 \<le> x" "x < 500" "0 \<le> y"
  shows "exImgData ((y * 500 + x) * 4) = (if 400 \<le> x then 213 else 255)"
    and "exImgData ((y * 500 + x) * 4 + 1) =
           (if 400 \<le> x then 43 else if 100 \<le> x \<and> x < 200 \<and> y < 45 then 0 else 255)"
    and "exImgData ((y * 500 + x) * 4 + 2) =
           (if 400 \<le> x then 255 else if 100 \<le> x \<and> x < 200 \<and> y < 45 then 0 else 255)"
proof -
  have xm: "(y * 500 + x) mod 500 = x" using assms by simp
  have yd: "(y * 500 + x) div 500 = y" using assms by simp
  have d0: "((y * 500 + x) * 4) div 4 = y * 500 + x" by simp
  have m0: "((y * 500 + x) * 4) mod 4 = 0" by simp
  have d1: "((y * 500 + x) * 4 + 1) div 4 = y * 500 + x"
    using div_mult_self3[of 4 "y * 500 + x" 1] by simp
  have m1: "((y * 500 + x) * 4 + 1) mod 4 = 1"
    using mod_mult_self3[of "y * 500 + x" 4 1] by simp
  have d2: "((y * 500 + x) * 4 + 2) div 4 = y * 500 + x"
    using div_mult_self3[of 4 "y * 500 + x" 2] by simp
  have m2: "((y * 500 + x) * 4 + 2) mod 4 = 2"
    using mod_mult_self3[of "y * 500 + x" 4 2] by simp
  show "exImgData ((y * 500 + x) * 4) = (if 400 \<le> x then 213 else 255)"
    unfolding exImgData_def d0 m0 xm yd by (simp add: Let_def)
  show "exImgData ((y * 500 + x) * 4 + 1) =
           (if 400 \<le> x then 43 else if 100 \<le> x \<and> x < 200 \<and> y < 45 then 0 else 255)"
    unfolding exImgData_def d1 m1 xm yd by (simp add: Let_def)
  show "exImgData ((y * 500 + x) * 4 + 2) =
           (if 400 \<le> x then 255 else if 100 \<le> x \<and> x < 200 \<and> y < 45 then 0 else 255)"
    unfolding exImgData_def d2 m2 xm yd by (simp add: Let_def)
qed

lemma exTuesday_rect:
  "cellRect exImage (slotBands exNav ! 0) (dayRegions exNav Tuesday) = (108, 192, 12, 38)"
  by (simp add: cellRect_def exImage_def exNav_def clamp_def)

lemma exFriday_rect:
  "cellRect exImage (slotBands exNav ! 0) (dayRegions exNav Friday) = (408, 491, 12, 38)"
  by (simp add: cellRect_def exImage_def exNav_def clamp_def)

lemma exTuesday_pixels:
  "\<forall>px \<in> set (sampledPixels exImage (108, 192, 12, 38) exRnd k n).
     px = (255, 0, 0)"
proof (rule sampledPixels_all[OF exRnd_range])
  fix x y :: int
  assume "108 \<le> x" "x < 192" "12 \<le> y" "y < 38"
  with exImgData_px[of x y]
  show "(imgData exImage ((y * pre_w exImage + x) * 4),
         imgData exImage ((y * pre_w exImage + x) * 4 + 1),
         imgData exImage ((y * pre_w exImage + x) * 4 + 2)) = (255, 0, 0)"
    by (simp add: exImage_def)
qed (simp_all add: exImage_def)

lemma exFriday_pixels:
  "\<forall>px \<in> set (sampledPixels exImage (408, 491, 12, 38) exRnd k n).
     px = (213, 43, 255)"
proof (rule sampledPixels_all[OF exRnd_range])
  fix x y :: int
  assume "408 \<le> x" "x < 491" "12 \<le> y" "y < 38"
  with exImgData_px[of x y]
  show "(imgData exImage ((y * pre_w exImage + x) * 4),
         imgData exImage ((y * pre_w exImage + x) * 4 + 1),
         imgData exImage ((y * pre_w exImage + x) * 4 + 2)) = (213, 43, 255)"
    by (simp add: exImage_def)
qed (simp_all add: exImage_def)

lemma exMonday_rect:
  "cellRect exImage (slotBands exNav ! 0) (dayRegions exNav Monday) = (8, 92, 12, 38)"
  by (simp add: cellRect_def exImage_def exNav_def clamp_def)

lemma exNarrow_rect:
  "cellRect exImage (slotBands exNav ! 0) exNarrow = (58, 59, 12, 38)"
  by (simp add: cellRect_def exImage_def exNav_def exNarrow_def clamp_def)

lemma exMonday_pixels:
  "\<forall>px \<in> set (sampledPixels exImage (8, 92, 12, 38) exRnd k n).
     px = (255, 255, 255)"
proof (rule sampledPixels_all[OF exRnd_range])
  fix x y :: int
  assume "8 \<le> x" "x < 92" "12 \<le> y" "y < 38"
  with exImgData_px[of x y]
  show "(imgData exImage ((y * pre_w exImage + x) * 4),
         imgData exImage ((y * pre_w exImage + x) * 4 + 1),
         imgData exImage ((y * pre_w exImage + x) * 4 + 2)) = (255, 255, 255)"
    by (simp add: exImage_def)
qed (simp_all add: exImage_def)

lemma exNarrow_pixels:
  "\<forall>px \<in> set (sampledPixels exImage (58, 59, 12, 38) exRnd k n).
     px = (255, 255, 255)"
proof (rule sampledPixels_all[OF exRnd_range])
  fix x y :: int
  assume "58 \<le> x" "x < 59" "12 \<le> y" "y < 38"
  with exImgData_px[of x y]
  show "(imgData exImage ((y * pre_w exImage + x) * 4),
         imgData exImage ((y * pre_w exImage + x) * 4 + 1),
         imgData exImage ((y * pre_w exImage + x) * 4 + 2)) = (255, 255, 255)"
    by (simp add: exImage_def)
qed (simp_all add: exImage_def)

text \<open>
  The rule at work on two cells of the example image: the white Monday cell (every sample
  matches the background) is free, the red Tuesday cell (every sample is occupied) is busy.
\<close>

theorem hybrid_busy_free_rule_witness:
  "fst (measurePurpleFrac exImage (slotBands exNav ! 0) (dayRegions exNav Monday) exRnd 0) < 18 / 100
   \<and> fracOf (pxBg exBg)
        (sampledPixels exImage (cellRect exImage (slotBands exNav ! 0) (dayRegions exNav Monday))
           exRnd 320 140) = 1
   \<and> classifyCell exImage exBg False (dayRegions exNav Monday) (slotBands exNav ! 0) exRnd 0
       = ((True, False), 600)
   \<and> fst (measurePurpleFrac exImage (slotBands exNav ! 0) (dayRegions exNav Tuesday) exRnd 1200) < 18 / 100
   \<and> fracOf (pxOccupied exBg)
        (sampledPixels exImage (cellRect exImage (slotBands exNav ! 0) (dayRegions exNav Tuesday))
           exRnd 1520 140) = 1
   \<and> classifyCell exImage exBg False (dayRegions exNav Tuesday) (slotBands exNav ! 0) exRnd 1200
       = ((False, False), 1800)"
proof -
  let ?slot = "slotBands exNav ! 0"
  let ?mon = "dayRegions exNav Monday" and ?tue = "dayRegions exNav Tuesday"
  let ?pm = "sampledPixels exImage (cellRect exImage ?slot ?mon) exRnd 320 140"
  let ?pt = "sampledPixels exImage (cellRect exImage ?slot ?tue) exRnd 1520 140"
  have vm: "\<lfloor>dr_x0 ?mon\<rfloor> < \<lfloor>dr_x1 ?mon\<rfloor> \<and> yStart ?slot < yEnd ?slot"
    by (simp add: exNav_def)
  have vt: "\<lfloor>dr_x0 ?tue\<rfloor> < \<lfloor>dr_x1 ?tue\<rfloor> \<and> yStart ?slot < yEnd ?slot"
    by (simp add: exNav_def)
  have "fracOf pxPurple (sampledPixels exImage (8, 92, 12, 38) exRnd 0 160) = 0"
    using exMonday_pixels[of 0 160]
    by (intro fracOf_none) (auto simp: pxPurple_def isPurpleMatch_def)
  then have m3: "fst (measurePurpleFrac exImage ?slot ?mon exRnd 0) < 18 / 100"
    by (simp add: measurePurpleFrac_frac exMonday_rect)
  have mbg: "fracOf (pxBg exBg) ?pm = 1"
    unfolding exMonday_rect using exMonday_pixels[of 320 140]
    by (intro fracOf_all) (auto simp: pxBg_def exBg_def simp flip: length_0_conv)
  have mocc: "fracOf (pxOccupied exBg) ?pm = 0"
    unfolding exMonday_rect using exMonday_pixels[of 320 140]
    by (intro fracOf_none) (auto simp: pxOccupied_def pxInk_def)
  have "fracOf pxPurple (sampledPixels exImage (108, 192, 12, 38) exRnd 1200 160) = 0"
    using exTuesday_pixels[of 1200 160]
    by (intro fracOf_none) (auto simp: pxPurple_def isPurpleMatch_def)
  then have t3: "fst (measurePurpleFrac exImage ?slot ?tue exRnd 1200) < 18 / 100"
    by (simp add: measurePurpleFrac_frac exTuesday_rect)
  have tocc: "fracOf (pxOccupied exBg) ?pt = 1"
    unfolding exTuesday_rect using exTuesday_pixels[of 1520 140]
    by (intro fracOf_all)
       (auto simp: pxOccupied_def pxInk_def pxBg_def exBg_def simp flip: length_0_conv)
  from hybrid_busy_free_rule[OF m3, of exBg False] vm
  have cm: "classifyCell exImage exBg False ?mon ?slot exRnd 0 = ((True, False), 600)"
    by (auto simp: Let_def mbg mocc)
  from hybrid_busy_free_rule[OF t3, of exBg False] vt
  have ct: "classifyCell exImage exBg False ?tue ?slot exRnd 1200 = ((False, False), 1800)"
    by (auto simp: Let_def tocc)
  from m3 mbg cm t3 tocc ct show ?thesis by simp
qed

text \<open>
  The rule as first stated (for every cell below the work threshold, 140 pixels are sampled
  and the cell is free exactly when the fractions say so) fails on a cell whose floored
  region is empty: the region \<open>[50, 50]\<close> of the white Monday column has a purple fraction of
  0, the pixels its rectangle would yield all match the background and none is occupied,
  yet the classifier fails with \<^verbatim>\<open>bad dayRegion\<close> without a draw and the cell is busy.
\<close>

theorem hybrid_rule_degenerate_cell:
  "fst (measurePurpleFrac exImage (slotBands exNav ! 0) exNarrow exRnd 0) < 18 / 100
   \<and> fracOf (pxBg exBg)
        (sampledPixels exImage (cellRect exImage (slotBands exNav ! 0) exNarrow) exRnd 320 140) = 1
   \<and> fracOf (pxOccupied exBg)
        (sampledPixels exImage (cellRect exImage (slotBands exNav ! 0) exNarrow) exRnd 320 140) = 0
   \<and> classifySlotSample exImage (slotBands exNav ! 0) exNarrow exBg exRnd 320
       = (Inl ''bad dayRegion'', 320)
   \<and> classifyCell exImage exBg False exNarrow (slotBands exNav ! 0) exRnd 0
       = ((False, False), 320)"
proof -
  let ?slot = "slotBands exNav ! 0"
  let ?px = "sampledPixels exImage (cellRect exImage ?slot exNarrow) exRnd 320 140"
  have "fracOf pxPurple (sampledPixels exImage (58, 59, 12, 38) exRnd 0 160) = 0"
    using exNarrow_pixels[of 0 160]
    by (intro fracOf_none) (auto simp: pxPurple_def isPurpleMatch_def)
  then have pf: "measurePurpleFrac exImage ?slot exNarrow exRnd 0 = (0, 320)"
    by (simp add: measurePurpleFrac_frac exNarrow_rect)
  have bg: "fracOf (pxBg exBg) ?px = 1"
    unfolding exNarrow_rect using exNarrow_pixels[of 320 140]
    by (intro fracOf_all) (auto simp: pxBg_def exBg_def simp flip: length_0_conv)
  have occ: "fracOf (pxOccupied exBg) ?px = 0"
    unfolding exNarrow_rect using exNarrow_pixels[of 320 140]
    by (intro fracOf_none) (auto simp: pxOccupied_def pxInk_def)
  have bad: "classifySlotSample exImage ?slot exNarrow exBg exRnd 320 = (Inl ''bad dayRegion'', 320)"
    by (simp add: classifySlotSample_def exNarrow_def)
  have cell: "classifyCell exImage exBg False exNarrow ?slot exRnd 0 = ((False, False), 320)"
    by (simp add: classifyCell_def pf bad)
  from pf bg occ bad cell show ?thesis by simp
qed

lemma slotsLoop_total:
  "\<exists>arr workArr k'. slotsLoop p bg softFree region rnd slots k = ((arr, workArr), k')"
  by (metis prod.exhaust)

lemma daysLoop_total:
  assumes "\<And>r xs n. trim r xs n \<noteq> None"
  shows "\<exists>dO' wO' k'. daysLoop trim p nv softFree rnd ds dO wO k = (Some (dO', wO'), k')"
proof (induction ds arbitrary: dO wO k)
  case Nil
  then show ?case by simp
next
  case (Cons d rest)
  from assms obtain region where t: "trim (dayRegions nv d) (dividerXs nv) 6 = Some region"
    by (metis not_None_eq)
  obtain arr workArr k1 where
    sl: "slotsLoop p (bgWhite nv) softFree region rnd (slotBands nv) k = ((arr, workArr), k1)"
    by (metis prod.exhaust)
  have "daysLoop trim p nv softFree rnd (d # rest) dO wO k =
        daysLoop trim p nv softFree rnd rest (dO(d := arr)) (wO(d := workArr)) k1"
    using t sl by simp
  then show ?case using Cons.IH by metis
qed

lemma computeAvail_total:
  assumes "\<And>r xs n. trim r xs n \<noteq> None" "slotBands nv \<noteq> []"
  shows "\<exists>av k'. computeAvailFromFrozenNav trim p nv softFree rnd k = (Ok av, k')"
proof -
  from daysLoop_total[where trim = trim and p = p and nv = nv and softFree = softFree and rnd = rnd
      and ds = WEEKDAYS and dO = "\<lambda>d. []" and wO = "\<lambda>d. []" and k = k, OF assms(1)]
  obtain dO' wO' k' where
    "daysLoop trim p nv softFree rnd WEEKDAYS (\<lambda>d. []) (\<lambda>d. []) k = (Some (dO', wO'), k')"
    by blast
  then show ?thesis
    using assms(2) by (simp add: computeAvailFromFrozenNav_def)
qed

theorem work_marker_witness:
  "\<exists>av k'. computeAvailFromFrozenNav exTrim exImage exNav False exRnd 0 = (Ok av, k')
      \<and> (0::nat) < length (slotBands exNav)
      \<and> fracOf pxPurple (sampledPixels exImage
            (cellRect exImage (slotBands exNav ! 0) (dayRegions exNav Friday)) exRnd
            (cellPos exImage (bgWhite exNav) False (dayRegions exNav Friday) exRnd (slotBands exNav)
               (dayPos exTrim exImage exNav False exRnd WEEKDAYS 0 Friday) 0) 160) = 1
      \<and> av_workDays av Friday ! 0 \<and> av_days av Friday ! 0"
proof -
  obtain av k' where av: "computeAvailFromFrozenNav exTrim exImage exNav False exRnd 0 = (Ok av, k')"
    using computeAvail_total[where trim = exTrim and nv = exNav and p = exImage
        and softFree = False and rnd = exRnd and k = 0]
    by (auto simp: exTrim_def exNav_def)
  have i: "(0::nat) < length (slotBands exNav)" by (simp add: exNav_def)
  have t: "exTrim (dayRegions exNav Friday) (dividerXs exNav) 6 = Some (dayRegions exNav Friday)"
    by (simp add: exTrim_def)
  let ?ki = "cellPos exImage (bgWhite exNav) False (dayRegions exNav Friday) exRnd (slotBands exNav)
               (dayPos exTrim exImage exNav False exRnd WEEKDAYS 0 Friday) 0"
  have pf: "fracOf pxPurple (sampledPixels exImage
         (cellRect exImage (slotBands exNav ! 0) (dayRegions exNav Friday)) exRnd ?ki 160) = 1"
    unfolding exFriday_rect using exFriday_pixels[of ?ki 160]
    by (intro fracOf_all) (auto simp: pxPurple_def isPurpleMatch_def simp flip: length_0_conv)
  from work_marker_counts_as_available[OF av i, of Friday] t pf
  have "av_workDays av Friday ! 0 \<and> av_days av Friday ! 0"
    by (simp add: Let_def)
  with av i pf show ?thesis by blast
qed

subsection \<open>Tick validation: the loops compute what the specification names\<close>






















subsection \<open>Saved-schedule query: work slots are excluded from the free ranges\<close>

lemma okRange_pushRange:
  assumes "\<forall>se \<in> set ranges. okRange m anchorMin step ce i0 i1 se"
    and "okRange m anchorMin step ce i0 i1 (s, e)"
  shows "\<forall>se \<in> set (pushRange ranges s e). okRange m anchorMin step ce i0 i1 se"
  using assms by (auto simp: pushRange_def)

lemma rangesLoop_done:
  "\<not> i < i1 \<Longrightarrow> rangesLoop m anchorMin step cs ce i i1 ranges run = (ranges, run)"
  by (subst rangesLoop.simps) simp

lemma rangesLoop_on:
  "i < i1 \<Longrightarrow> maskAt m i \<Longrightarrow>
   rangesLoop m anchorMin step cs ce i i1 ranges run =
   rangesLoop m anchorMin step cs ce (i + 1) i1 ranges
     (case run of None \<Rightarrow> Some i | Some r \<Rightarrow> Some r)"
  by (subst rangesLoop.simps) simp

lemma rangesLoop_off_None:
  "i < i1 \<Longrightarrow> \<not> maskAt m i \<Longrightarrow>
   rangesLoop m anchorMin step cs ce i i1 ranges None =
   rangesLoop m anchorMin step cs ce (i + 1) i1 ranges None"
  by (subst rangesLoop.simps) simp

lemma rangesLoop_off_Some:
  "i < i1 \<Longrightarrow> \<not> maskAt m i \<Longrightarrow>
   rangesLoop m anchorMin step cs ce i i1 ranges (Some r) =
   rangesLoop m anchorMin step cs ce (i + 1) i1
     (pushRange ranges (max cs (anchorMin + r * step)) (min ce (anchorMin + i * step))) None"
  by (subst rangesLoop.simps) simp

lemma rangesLoop_inv:
  assumes "0 < step" "i0 \<le> i" "i \<le> i1"
    and "\<forall>se \<in> set ranges. okRange m anchorMin step ce i0 i1 se"
    and "\<And>r. run = Some r \<Longrightarrow> i0 \<le> r \<and> r < i \<and> (\<forall>j. r \<le> j \<and> j < i \<longrightarrow> maskAt m j)"
    and "rangesLoop m anchorMin step cs ce i i1 ranges run = (ranges', run')"
  shows "(\<forall>se \<in> set ranges'. okRange m anchorMin step ce i0 i1 se) \<and>
         (\<forall>r. run' = Some r \<longrightarrow> i0 \<le> r \<and> r < i1 \<and> (\<forall>j. r \<le> j \<and> j < i1 \<longrightarrow> maskAt m j))"
  using assms
proof (induction m anchorMin step cs ce i i1 ranges run rule: rangesLoop.induct)
  case (1 maskArr anchorMin step cs ce i i1 ranges run)
  show ?case
  proof (cases "i < i1")
    case False
    with "1.prems" have "i = i1" "ranges' = ranges" "run' = run"
      by (auto simp: rangesLoop_done)
    with "1.prems" show ?thesis by auto
  next
    case lt: True
    show ?thesis
    proof (cases "maskAt maskArr i")
      case on: True
      let ?run = "(case run of None \<Rightarrow> Some i | Some r \<Rightarrow> Some r)"
      have eq: "rangesLoop maskArr anchorMin step cs ce (i + 1) i1 ranges ?run = (ranges', run')"
        using "1.prems"(6) lt on by (simp add: rangesLoop_on)
      have runinv: "\<And>r. ?run = Some r \<Longrightarrow> i0 \<le> r \<and> r < i + 1 \<and> (\<forall>j. r \<le> j \<and> j < i + 1 \<longrightarrow> maskAt maskArr j)"
      proof -
        fix r assume a: "?run = Some r"
        show "i0 \<le> r \<and> r < i + 1 \<and> (\<forall>j. r \<le> j \<and> j < i + 1 \<longrightarrow> maskAt maskArr j)"
        proof (cases run)
          case None
          with a have "r = i" by simp
          with on "1.prems"(2) show ?thesis by auto
        next
          case (Some r')
          with a have "r = r'" by simp
          with "1.prems"(5)[of r'] Some on show ?thesis
            by (metis add.commute less_le_not_le zless_add1_eq)
        qed
      qed
      show ?thesis
        by (rule "1.IH"(1)[OF lt on "1.prems"(1) _ _ "1.prems"(4) runinv eq]) (use lt "1.prems" in auto)
    next
      case off: False
      show ?thesis
      proof (cases run)
        case None
        have eq: "rangesLoop maskArr anchorMin step cs ce (i + 1) i1 ranges None = (ranges', run')"
          using "1.prems"(6) lt off None by (simp add: rangesLoop_off_None)
        show ?thesis
          by (rule "1.IH"(2)[OF lt off None "1.prems"(1) _ _ "1.prems"(4) _ eq]) (use lt "1.prems" in auto)
      next
        case (Some r)
        let ?rs = "pushRange ranges (max cs (anchorMin + r * step)) (min ce (anchorMin + i * step))"
        have eq: "rangesLoop maskArr anchorMin step cs ce (i + 1) i1 ?rs None = (ranges', run')"
          using "1.prems"(6) lt off Some by (simp add: rangesLoop_off_Some)
        from "1.prems"(5)[OF Some] have r: "i0 \<le> r" "r < i" "\<forall>j. r \<le> j \<and> j < i \<longrightarrow> maskAt maskArr j"
          by auto
        have "okRange maskArr anchorMin step ce i0 i1 (max cs (anchorMin + r * step), min ce (anchorMin + i * step))"
          unfolding okRange_def fst_conv snd_conv using r lt
          apply (intro conjI)
           apply simp
          apply (rule exI[of _ r], rule exI[of _ i])
          apply auto
          done
        then have inv: "\<forall>se \<in> set ?rs. okRange maskArr anchorMin step ce i0 i1 se"
          using okRange_pushRange "1.prems"(4) by blast
        show ?thesis
          by (rule "1.IH"(3)[OF lt off Some "1.prems"(1) _ _ inv _ eq]) (use lt "1.prems" in auto)
      qed
    qed
  qed
qed

lemma buildRanges_ok:
  assumes "0 < step" "i0 \<le> i1" "se \<in> set (buildRangesFromMask m i0 i1 anchorMin step cs ce)"
  shows "okRange m anchorMin step ce i0 i1 se"
proof -
  obtain rs run where L: "rangesLoop m anchorMin step cs ce i0 i1 [] None = (rs, run)"
    by (cases "rangesLoop m anchorMin step cs ce i0 i1 [] None")
  have inv: "(\<forall>se \<in> set rs. okRange m anchorMin step ce i0 i1 se) \<and>
         (\<forall>r. run = Some r \<longrightarrow> i0 \<le> r \<and> r < i1 \<and> (\<forall>j. r \<le> j \<and> j < i1 \<longrightarrow> maskAt m j))"
    by (rule rangesLoop_inv[OF assms(1) _ assms(2) _ _ L]) auto
  show ?thesis
  proof (cases run)
    case None
    with L assms(3) inv show ?thesis by (auto simp: buildRangesFromMask_def)
  next
    case (Some r)
    with inv have r: "i0 \<le> r" "r < i1" "\<forall>j. r \<le> j \<and> j < i1 \<longrightarrow> maskAt m j" by auto
    have "okRange m anchorMin step ce i0 i1 (max cs (anchorMin + r * step), ce)"
      unfolding okRange_def fst_conv snd_conv using r
        apply (intro conjI)
         apply simp
        apply (rule exI[of _ r], rule exI[of _ i1])
        apply auto
        done
    with inv have "\<forall>se \<in> set (pushRange rs (max cs (anchorMin + r * step)) ce). okRange m anchorMin step ce i0 i1 se"
      using okRange_pushRange by blast
    with L Some assms(3) show ?thesis by (auto simp: buildRangesFromMask_def)
  qed
qed

lemma freeMaskOf_map2:
  assumes "int (length d) = n" "int (length wa) = n"
  shows "freeMaskOf d (Some wa) n = map2 (\<lambda>a w. a \<and> \<not> w) d wa"
  using assms by (auto simp: freeMaskOf_def maskAt_def intro!: nth_equalityI)

text \<open>
  Claim C10. Whenever the record has a \<^verbatim>\<open>workDays[day]\<close> array of the length of its slot
  count, the free ranges are built from the derived mask \<open>days[day][i] \<and> \<not> workDays[day][i]\<close>,
  and no returned free range overlaps a slot whose work flag is set: every free range
  \<open>[s, e)\<close> ends before such a slot starts or starts after it ends, whatever \<open>days\<close> holds
  for that slot.
\<close>

theorem work_slots_excluded_from_free_ranges:
  assumes "queryRecord startMin endMin rec = Listed freeRanges workRanges"
    and "rec_dayArr rec = Some d" and "rec_workArr rec = Some wa"
    and "slotsFinalOf rec = Some n" and "int (length wa) = n"
    and "rec_anchorMin rec = Some anchorMin"
  shows "freeRanges =
           buildRangesFromMask (map2 (\<lambda>a w. a \<and> \<not> w) d wa)
             (max 0 ((max startMin anchorMin - anchorMin) div 30))
             (min n (- ((- (min endMin (anchorMin + n * 30) - anchorMin)) div 30)))
             anchorMin 30 startMin endMin
         \<and> (\<forall>(s, e) \<in> set freeRanges. \<forall>i. 0 \<le> i \<and> i < n \<and> wa ! nat i \<longrightarrow>
               e \<le> anchorMin + i * 30 \<or> anchorMin + (i + 1) * 30 \<le> s)"
proof -
  let ?cs = "max startMin anchorMin" and ?ce = "min endMin (anchorMin + n * 30)"
  let ?i0 = "max 0 ((?cs - anchorMin) div 30)"
  let ?i1 = "min n (- ((- (?ce - anchorMin)) div 30))"
  let ?m = "map2 (\<lambda>a w. a \<and> \<not> w) d wa"
  have len: "int (length d) = n" and win: "?cs < ?ce"
    using assms by (auto simp: queryRecord_def Let_def TIME_STEP_MIN_def split: if_splits option.splits)
  have fm: "freeMaskOf d (rec_workArr rec) n = ?m"
    using freeMaskOf_map2[OF len assms(5)] assms(3) by simp
  have FR: "freeRanges = buildRangesFromMask ?m ?i0 ?i1 anchorMin 30 startMin endMin"
    using assms(1,2,4,6) len win fm
    by (auto simp: queryRecord_def Let_def TIME_STEP_MIN_def split: if_splits option.splits)
  have i01: "?i0 \<le> ?i1"
  proof -
    have "0 \<le> ?cs - anchorMin" "?cs - anchorMin < ?ce - anchorMin" "?ce - anchorMin \<le> n * 30"
      using win by auto
    then show ?thesis by (auto simp: max_def min_def)
  qed
  have excl: "e \<le> anchorMin + i * 30 \<or> anchorMin + (i + 1) * 30 \<le> s"
    if se: "(s, e) \<in> set freeRanges" and i: "0 \<le> i" "i < n" "wa ! nat i" for s e i
  proof -
    have "okRange ?m anchorMin 30 endMin ?i0 ?i1 (s, e)"
      using buildRanges_ok[OF _ i01, of 30 "(s, e)" ?m anchorMin startMin endMin] se FR by simp
    then obtain a b where ab: "?i0 \<le> a" "a < b" "b \<le> ?i1"
        "\<forall>j. a \<le> j \<and> j < b \<longrightarrow> maskAt ?m j" "anchorMin + a * 30 \<le> s"
        "e \<le> anchorMin + b * 30 \<or> b = ?i1" "e \<le> endMin"
      unfolding okRange_def by auto
    have off: "\<not> maskAt ?m i"
      using i len assms(5) by (auto simp: maskAt_def)
    with ab(4) have "\<not> (a \<le> i \<and> i < b)" by blast
    then have "i < a \<or> b \<le> i" by linarith
    then show ?thesis
    proof
      assume "i < a"
      with ab(5) show ?thesis by auto
    next
      assume bi: "b \<le> i"
      from ab(6) show ?thesis
      proof
        assume "e \<le> anchorMin + b * 30"
        with bi show ?thesis by auto
      next
        assume b: "b = ?i1"
        with bi i(2) have lt: "- ((- (?ce - anchorMin)) div 30) < n" "b = - ((- (?ce - anchorMin)) div 30)"
          by auto
        then have "?ce - anchorMin \<le> b * 30" by linarith
        moreover from lt have "?ce - anchorMin < n * 30" by linarith
        then have "?ce = endMin" by (auto simp: min_def split: if_splits)
        moreover note ab(7)
        ultimately show ?thesis using bi by auto
      qed
    qed
  qed
  from FR excl show ?thesis by auto
qed

theorem work_slots_excluded_witness:
  "queryRecord 480 600 exampleRec = Listed [(480, 510), (540, 570)] [(510, 540)]
   \<and> [True, True, True, False] ! 1 \<and> [False, True, False, False] ! 1
   \<and> ((510::int) \<le> 480 + 1 * 30 \<or> (480::int) + (1 + 1) * 30 \<le> 480)
   \<and> ((570::int) \<le> 480 + 1 * 30 \<or> (480::int) + (1 + 1) * 30 \<le> 540)"
proof -
  have run: "queryRecord 480 600 exampleRec = Listed [(480, 510), (540, 570)] [(510, 540)]"
    by code_simp
  have n: "slotsFinalOf exampleRec = Some 4" by code_simp
  have d: "rec_dayArr exampleRec = Some [True, True, True, False]"
    and w: "rec_workArr exampleRec = Some [False, True, False, False]"
    and a: "rec_anchorMin exampleRec = Some 480"
    by (simp_all add: exampleRec_def)
  have len: "int (length [False, True, False, False]) = 4" by simp
  note T = work_slots_excluded_from_free_ranges[OF run d w n len a, THEN conjunct2]
  have i: "(0::int) \<le> 1 \<and> (1::int) < 4 \<and> [False, True, False, False] ! nat 1" by simp
  have "(510::int) \<le> 480 + 1 * 30 \<or> (480::int) + (1 + 1) * 30 \<le> 480"
    using T[THEN bspec, of "(480, 510)"] i by (simp del: One_nat_def)
  moreover have "(570::int) \<le> 480 + 1 * 30 \<or> (480::int) + (1 + 1) * 30 \<le> 540"
    using T[THEN bspec, of "(540, 570)"] i by (simp del: One_nat_def)
  ultimately show ?thesis using run by simp
qed

end
